theory Spec2Isabelle
  imports Main "HOL-Library.Sublist"
begin

section \<open>The metrics client of tweet-lib (src/metrics.ts)\<close>

text \<open>
  The class \<open>MetricsClient\<close> owns a recurring timer that pushes the process metrics to a
  Prometheus Pushgateway, and deletes the pushed series when it is disposed. Everything the
  class does is an effect on the Node process: it allocates objects, arms and clears
  timers, registers a process hook, sends gateway requests whose callbacks run later, and
  writes log records. The embedding threads one \<open>world\<close> record through every function.
  Objects are addressed by their index in the list that allocated them (sessions, timers,
  requests, promises), so a fresh address is the length of the list and an address is never
  reused.

  The collaborators are effect sinks: \<open>prom-client\<close>'s gateway (a request is recorded with
  its callback, and the callback runs when the event loop delivers the result), Node's
  timers and process events, and the logger. \<open>url.parse\<close>, \<open>os.hostname\<close> and
  \<open>os.userInfo\<close> are read from the world.

  The class has no \<open>throw\<close>, no \<open>try\<close> and no validation, and the collaborators report a
  failure through the callback they are given, so every function below is total and
  returns the next world: there is no error value to return. A JavaScript number is an
  \<open>int\<close>; the delay of a timer is the number passed to \<open>setInterval\<close>.
\<close>

subsection \<open>Data\<close>

text \<open>\<open>Labels = { [key: string]: string }\<close>: an object, its entries in insertion order. The
  class never writes into a labels object, so it is held as a value.\<close>

type_synonym Labels = "(string \<times> string) list"

text \<open>\<open>MetricsOptions\<close>; an optional field is an option.\<close>

record MetricsOptions =
  metricsPushgatewayUrl :: string
  metricsPushgatewayPushInterval :: int
  metricsDefaultBlacklist :: "string list option"
  metricsInterval :: "int option"
  metricsJobName :: string

text \<open>The fields of a parsed \<open>Url\<close> that the class reads; \<open>host\<close> and \<open>port\<close> may be null.\<close>

record Url =
  host :: "string option"
  port :: "string option"
  href :: string

text \<open>\<open>Pushgateway.Parameters\<close>: the identity of the pushed series.\<close>

record Parameters =
  jobName :: string
  groupings :: Labels

text \<open>A \<open>Pushgateway\<close> object, made by \<open>new Pushgateway(url)\<close>.\<close>

record Pushgateway =
  gatewayUrl :: string

datatype js_error = Error string

fun message :: "js_error \<Rightarrow> string" where
  "message (Error m) = m"

text \<open>A \<open>MetricsClient\<close> object. \<open>interval\<close> is the field \<open>_interval\<close>: \<open>None\<close> is
  undefined or null, \<open>Some t\<close> the handle that \<open>setInterval\<close> returned.\<close>

record MetricsClient =
  url :: Url
  pushInterval :: int
  interval :: "nat option"
  pushgateway :: Pushgateway
  params :: Parameters
  logger :: "string list"

text \<open>A timer made by \<open>setInterval\<close>. Its callback is \<open>() => this._pushStats()\<close>, a closure
  over the session at address \<open>t_this\<close>.\<close>

record timer =
  t_this :: nat
  t_delay :: int
  t_armed :: bool

text \<open>The two callbacks the class hands to the gateway: the one of \<open>_pushStats\<close> closes over
  the session, the one of \<open>dispose\<close> over the session and the promise it settles.\<close>

datatype callback = PushStatsCallback nat | DisposeCallback nat nat

fun cb_this :: "callback \<Rightarrow> nat" where
  "cb_this (PushStatsCallback sid) = sid"
| "cb_this (DisposeCallback sid pid) = sid"

datatype verb = PushAdd | Delete

record request =
  r_gateway :: Pushgateway
  r_verb :: verb
  r_params :: Parameters
  r_callback :: callback
  r_done :: bool

datatype promise = Pending | Resolved | Rejected js_error

datatype level = Info | Err

datatype meta =
    NoMeta
  | ParamsMeta Parameters
  | ErrorMeta js_error Parameters
  | DefaultsMeta "string list option" "int option"

record log_record =
  l_logger :: "string list"
  l_level :: level
  l_message :: string
  l_meta :: meta

record world =
  sessions :: "MetricsClient list"
  timers :: "timer list"
  requests :: "request list"
  promises :: "promise list"
  hooks :: "nat list"
  logs :: "log_record list"
  default_client :: "nat option"
  defaultMetrics_calls :: "(string list option \<times> int option) list"
  os_hostname :: string
  os_username :: string
  url_parse :: "string \<Rightarrow> Url"

subsection \<open>The runtime and the collaborators\<close>

text \<open>Modelled from the spec: the logger of \<open>./logging\<close> (\<open>createLogger\<close>, \<open>Logger.info\<close>,
  \<open>Logger.error\<close>), which is not among the sources. The spec has logging as an effect with
  structured fields and nothing more: a logger is the list of names it was created with,
  and a log call appends one record with the level, the message and the context object.\<close>

definition log :: "string list \<Rightarrow> level \<Rightarrow> string \<Rightarrow> meta \<Rightarrow> world \<Rightarrow> world" where
  "log lg lv msg m w =
     w\<lparr>logs := logs w @ [\<lparr>l_logger = lg, l_level = lv, l_message = msg, l_meta = m\<rparr>]\<rparr>"

text \<open>\<open>setInterval(callback, delay)\<close> arms a new timer and returns its handle.\<close>

definition setInterval :: "nat \<Rightarrow> int \<Rightarrow> world \<Rightarrow> nat \<times> world" where
  "setInterval sid delay w =
     (length (timers w),
      w\<lparr>timers := timers w @ [\<lparr>t_this = sid, t_delay = delay, t_armed = True\<rparr>]\<rparr>)"

text \<open>\<open>clearInterval(handle)\<close> disarms the timer of the handle; null, undefined and a handle
  that is already cleared are accepted and change nothing.\<close>

definition disarm :: "nat option \<Rightarrow> timer list \<Rightarrow> timer list" where
  "disarm h ts = (case h of None \<Rightarrow> ts | Some t \<Rightarrow> ts[t := (ts ! t)\<lparr>t_armed := False\<rparr>])"

definition clearInterval :: "nat option \<Rightarrow> world \<Rightarrow> world" where
  "clearInterval h w = w\<lparr>timers := disarm h (timers w)\<rparr>"

text \<open>\<open>gateway.pushAdd(params, callback)\<close> and \<open>gateway.delete(params, callback)\<close> send one
  request; the callback runs later, once.\<close>

definition gateway_request ::
  "verb \<Rightarrow> Pushgateway \<Rightarrow> Parameters \<Rightarrow> callback \<Rightarrow> world \<Rightarrow> world" where
  "gateway_request v g p cb w =
     w\<lparr>requests := requests w @
        [\<lparr>r_gateway = g, r_verb = v, r_params = p, r_callback = cb, r_done = False\<rparr>]\<rparr>"

text \<open>\<open>new Promise(executor)\<close> allocates a pending promise; \<open>resolve\<close> and \<open>reject\<close> settle a
  promise that is still pending and are ignored afterwards.\<close>

definition new_Promise :: "world \<Rightarrow> nat \<times> world" where
  "new_Promise w = (length (promises w), w\<lparr>promises := promises w @ [Pending]\<rparr>)"

definition settle :: "nat \<Rightarrow> promise \<Rightarrow> world \<Rightarrow> world" where
  "settle pid st w =
     (if pid < length (promises w) \<and> promises w ! pid = Pending
      then w\<lparr>promises := (promises w)[pid := st]\<rparr> else w)"

text \<open>A value inside a template string: null prints as \<open>null\<close>.\<close>

fun template :: "string option \<Rightarrow> string" where
  "template None = ''null''"
| "template (Some s) = s"

subsection \<open>The methods of MetricsClient\<close>

text \<open>The getter \<open>running\<close>: \<open>!!this._interval\<close>.\<close>

definition running :: "nat \<Rightarrow> world \<Rightarrow> bool" where
  "running sid w = (interval (sessions w ! sid) \<noteq> None)"

definition set_interval :: "nat \<Rightarrow> nat option \<Rightarrow> world \<Rightarrow> world" where
  "set_interval sid h w =
     w\<lparr>sessions := (sessions w)[sid := (sessions w ! sid)\<lparr>interval := h\<rparr>]\<rparr>"

definition resume :: "nat \<Rightarrow> world \<Rightarrow> world" where
  "resume sid w =
     (let (h, w1) = setInterval sid (pushInterval (sessions w ! sid)) w
      in set_interval sid (Some h) w1)"

definition pause :: "nat \<Rightarrow> world \<Rightarrow> world" where
  "pause sid w =
     (let w1 = clearInterval (interval (sessions w ! sid)) w
      in set_interval sid None w1)"

definition pushStats :: "nat \<Rightarrow> world \<Rightarrow> world" where
  "pushStats sid w =
     (let s = sessions w ! sid;
          w1 = log (logger s) Info ''Pushing stats to Pushgateway'' (ParamsMeta (params s)) w
      in gateway_request PushAdd (pushgateway s) (params s) (PushStatsCallback sid) w1)"

text \<open>The callback of \<open>_pushStats\<close>, run with the gateway's error or null.\<close>

definition pushStats_callback :: "nat \<Rightarrow> js_error option \<Rightarrow> world \<Rightarrow> world" where
  "pushStats_callback sid error w =
     (let s = sessions w ! sid in
      case error of
        Some e \<Rightarrow>
          log (logger s) Err
            (''An error occured while pushing stats to Pushgateway: '' @ message e)
            (ErrorMeta e (params s)) w
      | None \<Rightarrow> log (logger s) Info ''Successfully pushed stats to Pushgateway'' NoMeta w)"

definition dispose :: "nat \<Rightarrow> world \<Rightarrow> nat \<times> world" where
  "dispose sid w =
     (let w1 = pause sid w;
          s = sessions w1 ! sid;
          w2 = log (logger s) Info ''Disposing Pushgateway stats'' NoMeta w1;
          (pid, w3) = new_Promise w2
      in (pid, gateway_request Delete (pushgateway s) (params s) (DisposeCallback sid pid) w3))"

text \<open>The callback of the delete request inside \<open>dispose\<close>.\<close>

definition dispose_callback :: "nat \<Rightarrow> nat \<Rightarrow> js_error option \<Rightarrow> world \<Rightarrow> world" where
  "dispose_callback sid pid error w =
     (let s = sessions w ! sid in
      case error of
        Some e \<Rightarrow>
          settle pid (Rejected e)
            (log (logger s) Err
               (''An error occured while disposing Pushgateway stats: '' @ message e)
               (ErrorMeta e (params s)) w)
      | None \<Rightarrow>
          settle pid Resolved
            (log (logger s) Info ''Successfully disposed Pushgateway stats''
               (ParamsMeta (params s)) w))"

text \<open>The constructor. The object is allocated with \<open>_interval\<close> undefined; the handler of
  \<open>process.once("uncaughtException", ...)\<close> is the session's address in \<open>hooks\<close>.\<close>

definition new_MetricsClient ::
  "Url \<Rightarrow> int \<Rightarrow> string \<Rightarrow> Labels \<Rightarrow> world \<Rightarrow> nat \<times> world" where
  "new_MetricsClient u pushInt job grp w =
     (let sid = length (sessions w);
          s = \<lparr>url = u, pushInterval = pushInt, interval = None,
               pushgateway = \<lparr>gatewayUrl = href u\<rparr>,
               params = \<lparr>jobName = job, groupings = grp\<rparr>,
               logger = [''tweet-lib'', ''metrics'', ''client'',
                         template (host u) @ '':'' @ template (port u)]\<rparr>;
          w1 = w\<lparr>sessions := sessions w @ [s]\<rparr>;
          w2 = w1\<lparr>hooks := hooks w1 @ [sid]\<rparr>;
          w3 = pushStats sid w2
      in (sid, resume sid w3))"

text \<open>The handler the constructor registers: \<open>this.pause(); this.dispose();\<close>. The promise
  of \<open>dispose\<close> is dropped.\<close>

definition uncaughtException_handler :: "nat \<Rightarrow> world \<Rightarrow> world" where
  "uncaughtException_handler sid w = snd (dispose sid (pause sid w))"

definition create :: "MetricsOptions \<Rightarrow> Labels \<Rightarrow> world \<Rightarrow> nat \<times> world" where
  "create options labels w =
     (let w1 = w\<lparr>defaultMetrics_calls := defaultMetrics_calls w @
                   [(metricsDefaultBlacklist options, metricsInterval options)]\<rparr>;
          w2 = log [''tweet-lib'', ''metrics''] Info ''Registered default metrics''
                 (DefaultsMeta (metricsDefaultBlacklist options) (metricsInterval options)) w1;
          pushgatewayUrl = url_parse w2 (metricsPushgatewayUrl options)
      in new_MetricsClient pushgatewayUrl (metricsPushgatewayPushInterval options)
           (metricsJobName options) labels w2)"

definition start :: "MetricsOptions \<Rightarrow> world \<Rightarrow> world" where
  "start options w =
     (let w1 = (case default_client w of
                  Some d \<Rightarrow> snd (dispose d w)
                | None \<Rightarrow> w);
          (c, w2) = create options
                      [(''hostname'', os_hostname w1), (''username'', os_username w1)] w1
      in w2\<lparr>default_client := Some c\<rparr>)"

subsection \<open>The event loop\<close>

text \<open>What can happen to the process: a caller invokes a public method on a session it
  holds, or one of the static methods; the interval of a timer elapses; the gateway
  delivers the result of a request; an exception reaches the top of the process.\<close>

datatype public_method = Resume | Pause | Dispose

datatype event =
    Call nat public_method
  | Create MetricsOptions Labels
  | Start MetricsOptions
  | Tick nat
  | Complete nat "js_error option"
  | UncaughtException

fun call :: "public_method \<Rightarrow> nat \<Rightarrow> world \<Rightarrow> world" where
  "call Resume sid w = resume sid w"
| "call Pause sid w = pause sid w"
| "call Dispose sid w = snd (dispose sid w)"

fun run_callback :: "callback \<Rightarrow> js_error option \<Rightarrow> world \<Rightarrow> world" where
  "run_callback (PushStatsCallback sid) error w = pushStats_callback sid error w"
| "run_callback (DisposeCallback sid pid) error w = dispose_callback sid pid error w"

text \<open>A timer fires only while it is armed, and stays armed.\<close>

definition tick :: "nat \<Rightarrow> world \<Rightarrow> world" where
  "tick t w =
     (if t < length (timers w) \<and> t_armed (timers w ! t)
      then pushStats (t_this (timers w ! t)) w else w)"

text \<open>The gateway calls the callback of a request once.\<close>

definition complete :: "nat \<Rightarrow> js_error option \<Rightarrow> world \<Rightarrow> world" where
  "complete r error w =
     (if r < length (requests w) \<and> \<not> r_done (requests w ! r)
      then run_callback (r_callback (requests w ! r)) error
             (w\<lparr>requests := (requests w)[r := (requests w ! r)\<lparr>r_done := True\<rparr>]\<rparr>)
      else w)"

text \<open>\<open>process.once\<close>: every registered handler is removed and run, in the order of
  registration.\<close>

definition uncaughtException :: "world \<Rightarrow> world" where
  "uncaughtException w = fold uncaughtException_handler (hooks w) (w\<lparr>hooks := []\<rparr>)"

text \<open>A method can only be called on an object that exists.\<close>

fun step :: "event \<Rightarrow> world \<Rightarrow> world" where
  "step (Call sid m) w = (if sid < length (sessions w) then call m sid w else w)"
| "step (Create options labels) w = snd (create options labels w)"
| "step (Start options) w = start options w"
| "step (Tick t) w = tick t w"
| "step (Complete r error) w = complete r error w"
| "step UncaughtException w = uncaughtException w"

definition run :: "event list \<Rightarrow> world \<Rightarrow> world" where
  "run es w = fold step es w"

text \<open>The process before any session exists.\<close>

definition boot :: "string \<Rightarrow> string \<Rightarrow> (string \<Rightarrow> Url) \<Rightarrow> world" where
  "boot h u p =
     \<lparr>sessions = [], timers = [], requests = [], promises = [], hooks = [], logs = [],
      default_client = None, defaultMetrics_calls = [],
      os_hostname = h, os_username = u, url_parse = p\<rparr>"

subsection \<open>What is observed of a world\<close>

text \<open>A session without its timer handle: the endpoint, the push interval, the gateway
  client, the identity and the logger.\<close>

definition frame :: "MetricsClient \<Rightarrow> MetricsClient" where
  "frame s = s\<lparr>interval := None\<rparr>"

definition frames :: "world \<Rightarrow> MetricsClient list" where
  "frames w = map frame (sessions w)"

text \<open>The identities of the requests of one kind that the session at \<open>sid\<close> has sent so
  far, in the order of sending. The request belongs to the session its callback closes
  over.\<close>

definition issued :: "nat \<Rightarrow> verb \<Rightarrow> world \<Rightarrow> Parameters list" where
  "issued sid v w =
     map r_params (filter (\<lambda>r. cb_this (r_callback r) = sid \<and> r_verb r = v) (requests w))"

text \<open>The handles of the armed timers whose callback pushes for the session at \<open>sid\<close>.\<close>

definition armed_timers :: "nat \<Rightarrow> world \<Rightarrow> nat list" where
  "armed_timers sid w =
     filter (\<lambda>t. t_this (timers w ! t) = sid \<and> t_armed (timers w ! t)) [0..<length (timers w)]"

text \<open>The first statement of \<open>start\<close>: the session the directory holds, if any, is
  disposed, and the promise dropped.\<close>

definition start_disposed :: "world \<Rightarrow> world" where
  "start_disposed w = (case default_client w of Some d \<Rightarrow> snd (dispose d w) | None \<Rightarrow> w)"

text \<open>Every armed timer of the session is the one its handle holds: no timer of the
  session has been lost by a second \<open>resume\<close>.\<close>

definition single_armed :: "nat \<Rightarrow> world \<Rightarrow> bool" where
  "single_armed sid w =
     list_all (\<lambda>t. interval (sessions w ! sid) = Some t) (armed_timers sid w)"

text \<open>Along the events \<open>es\<close> from \<open>w\<close>, resume is called on the session only while it is
  not running.\<close>

fun resumes_paused :: "nat \<Rightarrow> event list \<Rightarrow> world \<Rightarrow> bool" where
  "resumes_paused sid [] w = True"
| "resumes_paused sid (e # es) w =
     ((e = Call sid Resume \<longrightarrow> \<not> running sid w) \<and> resumes_paused sid es (step e w))"

text \<open>Every reference of the world points to a session that exists.\<close>

definition well_formed :: "world \<Rightarrow> bool" where
  "well_formed w =
     (list_all (\<lambda>t. t_this t < length (sessions w)) (timers w) \<and>
      list_all (\<lambda>h. h < length (sessions w)) (hooks w) \<and>
      list_all (\<lambda>r. cb_this (r_callback r) < length (sessions w)) (requests w) \<and>
      (case default_client w of None \<Rightarrow> True | Some d \<Rightarrow> d < length (sessions w)))"

text \<open>The handle of every session is an armed timer whose callback pushes for that
  session.\<close>

definition handles_armed :: "world \<Rightarrow> bool" where
  "handles_armed w =
     list_all
       (\<lambda>i. case interval (sessions w ! i) of
              None \<Rightarrow> True
            | Some t \<Rightarrow> t < length (timers w) \<and> t_armed (timers w ! t) \<and>
                        t_this (timers w ! t) = i)
       [0..<length (sessions w)]"

text \<open>The worlds the process can be in: every world reached from \<open>boot\<close> is consistent.\<close>

definition consistent :: "world \<Rightarrow> bool" where
  "consistent w = (well_formed w \<and> handles_armed w)"

subsection \<open>The spec's reading of start\<close>

text \<open>The spec's words for the identity of the session that \<open>start\<close> makes: the default
  identity merged with the identity fields the caller supplies.\<close>

definition spec_start_groupings :: "world \<Rightarrow> Labels \<Rightarrow> (string \<rightharpoonup> string)" where
  "spec_start_groupings w identity =
     map_of [(''hostname'', os_hostname w), (''username'', os_username w)] ++ map_of identity"

subsection \<open>Sample worlds\<close>

text \<open>A process on host \<open>host1\<close> run by \<open>alice\<close>. Every address it parses is the one of
  the sample options, so \<open>url.parse\<close> is a function that keeps the address as \<open>href\<close> and
  answers the host and port of that address.\<close>

definition sample_parse :: "string \<Rightarrow> Url" where
  "sample_parse s = \<lparr>host = Some ''gateway:9091'', port = Some ''9091'', href = s\<rparr>"

definition sample_world :: world where
  "sample_world = boot ''host1'' ''alice'' sample_parse"

definition sample_options :: MetricsOptions where
  "sample_options =
     \<lparr>metricsPushgatewayUrl = ''http://gateway:9091/'',
      metricsPushgatewayPushInterval = 1000,
      metricsDefaultBlacklist = None, metricsInterval = None,
      metricsJobName = ''svc''\<rparr>"

definition sample_labels :: Labels where
  "sample_labels = [(''instance'', ''a'')]"

definition one_session :: world where
  "one_session = snd (create sample_options sample_labels sample_world)"

definition started :: world where
  "started = start sample_options sample_world"

section \<open>Lemmas\<close>

subsection \<open>The effect of each method\<close>

lemma resume_eq:
  "resume sid w =
     w\<lparr>timers := timers w @
          [\<lparr>t_this = sid, t_delay = pushInterval (sessions w ! sid), t_armed = True\<rparr>],
       sessions := (sessions w)[sid := (sessions w ! sid)\<lparr>interval := Some (length (timers w))\<rparr>]\<rparr>"
  by (simp add: resume_def setInterval_def set_interval_def)

lemma pause_eq:
  "pause sid w =
     w\<lparr>timers := disarm (interval (sessions w ! sid)) (timers w),
       sessions := (sessions w)[sid := (sessions w ! sid)\<lparr>interval := None\<rparr>]\<rparr>"
  by (simp add: pause_def clearInterval_def set_interval_def)

lemma pushStats_eq:
  "pushStats sid w =
     w\<lparr>logs := logs w @
          [\<lparr>l_logger = logger (sessions w ! sid), l_level = Info,
            l_message = ''Pushing stats to Pushgateway'',
            l_meta = ParamsMeta (params (sessions w ! sid))\<rparr>],
       requests := requests w @
          [\<lparr>r_gateway = pushgateway (sessions w ! sid), r_verb = PushAdd,
            r_params = params (sessions w ! sid),
            r_callback = PushStatsCallback sid, r_done = False\<rparr>]\<rparr>"
  by (simp add: pushStats_def log_def gateway_request_def Let_def)

lemma upd_nth_field:
  "params (xs[i := (xs ! i)\<lparr>interval := h\<rparr>] ! i) = params (xs ! i) \<and>
   logger (xs[i := (xs ! i)\<lparr>interval := h\<rparr>] ! i) = logger (xs ! i) \<and>
   pushgateway (xs[i := (xs ! i)\<lparr>interval := h\<rparr>] ! i) = pushgateway (xs ! i) \<and>
   pushInterval (xs[i := (xs ! i)\<lparr>interval := h\<rparr>] ! i) = pushInterval (xs ! i) \<and>
   url (xs[i := (xs ! i)\<lparr>interval := h\<rparr>] ! i) = url (xs ! i)"
  by (cases "i < length xs") (simp_all add: list_update_beyond)

lemma dispose_eq:
  "dispose sid w =
     (length (promises w),
      w\<lparr>timers := disarm (interval (sessions w ! sid)) (timers w),
        sessions := (sessions w)[sid := (sessions w ! sid)\<lparr>interval := None\<rparr>],
        logs := logs w @
          [\<lparr>l_logger = logger (sessions w ! sid), l_level = Info,
            l_message = ''Disposing Pushgateway stats'', l_meta = NoMeta\<rparr>],
        promises := promises w @ [Pending],
        requests := requests w @
          [\<lparr>r_gateway = pushgateway (sessions w ! sid), r_verb = Delete,
            r_params = params (sessions w ! sid),
            r_callback = DisposeCallback sid (length (promises w)), r_done = False\<rparr>]\<rparr>)"
  by (simp add: dispose_def pause_eq log_def new_Promise_def gateway_request_def Let_def
      upd_nth_field)

lemma pushStats_callback_eq:
  "pushStats_callback sid error w =
     w\<lparr>logs := logs w @
        [case error of
           Some e \<Rightarrow>
             \<lparr>l_logger = logger (sessions w ! sid), l_level = Err,
              l_message = ''An error occured while pushing stats to Pushgateway: '' @ message e,
              l_meta = ErrorMeta e (params (sessions w ! sid))\<rparr>
         | None \<Rightarrow>
             \<lparr>l_logger = logger (sessions w ! sid), l_level = Info,
              l_message = ''Successfully pushed stats to Pushgateway'', l_meta = NoMeta\<rparr>]\<rparr>"
  by (simp add: pushStats_callback_def log_def Let_def split: option.split)

lemma dispose_callback_eq:
  "dispose_callback sid pid error w =
     w\<lparr>logs := logs w @
        [case error of
           Some e \<Rightarrow>
             \<lparr>l_logger = logger (sessions w ! sid), l_level = Err,
              l_message = ''An error occured while disposing Pushgateway stats: '' @ message e,
              l_meta = ErrorMeta e (params (sessions w ! sid))\<rparr>
         | None \<Rightarrow>
             \<lparr>l_logger = logger (sessions w ! sid), l_level = Info,
              l_message = ''Successfully disposed Pushgateway stats'',
              l_meta = ParamsMeta (params (sessions w ! sid))\<rparr>],
       promises :=
         (if pid < length (promises w) \<and> promises w ! pid = Pending
          then (promises w)[pid := (case error of Some e \<Rightarrow> Rejected e | None \<Rightarrow> Resolved)]
          else promises w)\<rparr>"
  by (cases error) (auto simp: dispose_callback_def settle_def log_def Let_def)

lemma disarm_idem: "disarm h (disarm h ts) = disarm h ts"
proof (cases h)
  case None
  then show ?thesis by (simp add: disarm_def)
next
  case (Some t)
  then show ?thesis
    by (cases "t < length ts") (simp_all add: disarm_def list_update_beyond)
qed

lemma handler_eq:
  "uncaughtException_handler sid w =
     w\<lparr>timers := disarm (interval (sessions w ! sid)) (timers w),
       sessions := (sessions w)[sid := (sessions w ! sid)\<lparr>interval := None\<rparr>],
       logs := logs w @
          [\<lparr>l_logger = logger (sessions w ! sid), l_level = Info,
            l_message = ''Disposing Pushgateway stats'', l_meta = NoMeta\<rparr>],
       promises := promises w @ [Pending],
       requests := requests w @
          [\<lparr>r_gateway = pushgateway (sessions w ! sid), r_verb = Delete,
            r_params = params (sessions w ! sid),
            r_callback = DisposeCallback sid (length (promises w)), r_done = False\<rparr>]\<rparr>"
proof (cases "sid < length (sessions w)")
  case True
  then show ?thesis
    by (simp add: uncaughtException_handler_def dispose_eq pause_eq disarm_def)
next
  case False
  then show ?thesis
    by (simp add: uncaughtException_handler_def dispose_eq pause_eq list_update_beyond
        disarm_idem)
qed

subsection \<open>Frames\<close>

lemma map_frame_update:
  "map frame (xs[i := (xs ! i)\<lparr>interval := h\<rparr>]) = map frame xs"
proof (cases "i < length xs")
  case True
  have "map frame (xs[i := (xs ! i)\<lparr>interval := h\<rparr>]) = (map frame xs)[i := frame (xs ! i)]"
    by (simp add: map_update frame_def)
  also have "\<dots> = map frame xs"
    using True by (metis list_update_id map_update)
  finally show ?thesis .
next
  case False
  then show ?thesis by (simp add: list_update_beyond)
qed

lemma frames_resume: "frames (resume sid w) = frames w"
  by (simp add: frames_def resume_eq map_frame_update)

lemma frames_pause: "frames (pause sid w) = frames w"
  by (simp add: frames_def pause_eq map_frame_update)

lemma frames_pushStats: "frames (pushStats sid w) = frames w"
  by (simp add: frames_def pushStats_eq)

lemma frames_dispose: "frames (snd (dispose sid w)) = frames w"
  by (simp add: frames_def dispose_eq map_frame_update)

lemma frames_handler: "frames (uncaughtException_handler sid w) = frames w"
  by (simp add: frames_def handler_eq map_frame_update)

lemma frames_pushStats_callback: "frames (pushStats_callback sid error w) = frames w"
  by (simp add: frames_def pushStats_callback_eq)

lemma frames_dispose_callback: "frames (dispose_callback sid pid error w) = frames w"
  by (simp add: frames_def dispose_callback_eq)

lemma frames_fold_handler: "frames (fold uncaughtException_handler hs w) = frames w"
  by (induction hs arbitrary: w) (simp_all add: frames_handler)

lemma frames_uncaughtException: "frames (uncaughtException w) = frames w"
  by (simp add: uncaughtException_def frames_fold_handler) (simp add: frames_def)

lemma frames_tick: "frames (tick t w) = frames w"
  by (simp add: tick_def frames_pushStats)

lemma frames_complete: "frames (complete r error w) = frames w"
proof (cases "r < length (requests w) \<and> \<not> r_done (requests w ! r)")
  case True
  then show ?thesis
    by (cases "r_callback (requests w ! r)")
      (simp_all add: complete_def frames_pushStats_callback frames_dispose_callback,
       simp_all add: frames_def)
next
  case False
  then show ?thesis by (auto simp: complete_def)
qed

subsection \<open>The constructor and the static methods\<close>

lemma new_fst: "fst (new_MetricsClient u pushInt job grp w) = length (sessions w)"
  by (simp add: new_MetricsClient_def Let_def)

lemma new_sessions:
  "sessions (snd (new_MetricsClient u pushInt job grp w)) = sessions w @
     [\<lparr>url = u, pushInterval = pushInt, interval = Some (length (timers w)),
       pushgateway = \<lparr>gatewayUrl = href u\<rparr>,
       params = \<lparr>jobName = job, groupings = grp\<rparr>,
       logger = [''tweet-lib'', ''metrics'', ''client'',
                 template (host u) @ '':'' @ template (port u)]\<rparr>]"
  by (simp add: new_MetricsClient_def Let_def pushStats_eq resume_eq)

lemma new_timers:
  "timers (snd (new_MetricsClient u pushInt job grp w)) = timers w @
     [\<lparr>t_this = length (sessions w), t_delay = pushInt, t_armed = True\<rparr>]"
  by (simp add: new_MetricsClient_def Let_def pushStats_eq resume_eq)

lemma new_requests:
  "requests (snd (new_MetricsClient u pushInt job grp w)) = requests w @
     [\<lparr>r_gateway = \<lparr>gatewayUrl = href u\<rparr>, r_verb = PushAdd,
       r_params = \<lparr>jobName = job, groupings = grp\<rparr>,
       r_callback = PushStatsCallback (length (sessions w)), r_done = False\<rparr>]"
  by (simp add: new_MetricsClient_def Let_def pushStats_eq resume_eq)

lemma new_hooks:
  "hooks (snd (new_MetricsClient u pushInt job grp w)) = hooks w @ [length (sessions w)]"
  by (simp add: new_MetricsClient_def Let_def pushStats_eq resume_eq)

lemma new_promises: "promises (snd (new_MetricsClient u pushInt job grp w)) = promises w"
  by (simp add: new_MetricsClient_def Let_def pushStats_eq resume_eq)

lemma new_default:
  "default_client (snd (new_MetricsClient u pushInt job grp w)) = default_client w"
  by (simp add: new_MetricsClient_def Let_def pushStats_eq resume_eq)

lemma new_os:
  "os_hostname (snd (new_MetricsClient u pushInt job grp w)) = os_hostname w"
  "os_username (snd (new_MetricsClient u pushInt job grp w)) = os_username w"
  "url_parse (snd (new_MetricsClient u pushInt job grp w)) = url_parse w"
  by (simp_all add: new_MetricsClient_def Let_def pushStats_eq resume_eq)

lemmas new_simps = new_fst new_sessions new_timers new_requests new_hooks new_promises
  new_default new_os

lemma create_fst: "fst (create options labels w) = length (sessions w)"
  by (simp add: create_def Let_def log_def new_simps)

lemma create_sessions:
  "sessions (snd (create options labels w)) = sessions w @
     [\<lparr>url = url_parse w (metricsPushgatewayUrl options),
       pushInterval = metricsPushgatewayPushInterval options,
       interval = Some (length (timers w)),
       pushgateway = \<lparr>gatewayUrl = href (url_parse w (metricsPushgatewayUrl options))\<rparr>,
       params = \<lparr>jobName = metricsJobName options, groupings = labels\<rparr>,
       logger = [''tweet-lib'', ''metrics'', ''client'',
                 template (host (url_parse w (metricsPushgatewayUrl options))) @ '':'' @
                 template (port (url_parse w (metricsPushgatewayUrl options)))]\<rparr>]"
  by (simp add: create_def Let_def log_def new_simps)

lemma create_timers:
  "timers (snd (create options labels w)) = timers w @
     [\<lparr>t_this = length (sessions w), t_delay = metricsPushgatewayPushInterval options,
       t_armed = True\<rparr>]"
  by (simp add: create_def Let_def log_def new_simps)

lemma create_requests:
  "requests (snd (create options labels w)) = requests w @
     [\<lparr>r_gateway = \<lparr>gatewayUrl = href (url_parse w (metricsPushgatewayUrl options))\<rparr>,
       r_verb = PushAdd,
       r_params = \<lparr>jobName = metricsJobName options, groupings = labels\<rparr>,
       r_callback = PushStatsCallback (length (sessions w)), r_done = False\<rparr>]"
  by (simp add: create_def Let_def log_def new_simps)

lemma create_hooks:
  "hooks (snd (create options labels w)) = hooks w @ [length (sessions w)]"
  by (simp add: create_def Let_def log_def new_simps)

lemma create_promises: "promises (snd (create options labels w)) = promises w"
  by (simp add: create_def Let_def log_def new_simps)

lemma create_default: "default_client (snd (create options labels w)) = default_client w"
  by (simp add: create_def Let_def log_def new_simps)

lemmas create_simps = create_fst create_sessions create_timers create_requests create_hooks
  create_promises create_default

lemma start_eq:
  "start options w =
     (snd (create options [(''hostname'', os_hostname w), (''username'', os_username w)]
        (start_disposed w)))
     \<lparr>default_client := Some (length (sessions w))\<rparr>"
  by (cases "default_client w")
    (simp_all add: start_def start_disposed_def Let_def case_prod_beta create_fst dispose_eq)

lemma frames_start_disposed: "frames (start_disposed w) = frames w"
  by (cases "default_client w") (simp_all add: start_disposed_def frames_dispose)

lemma frames_create:
  "frames (snd (create options labels w)) = frames w @
     [frame (last (sessions (snd (create options labels w))))]"
  by (simp add: frames_def create_sessions)

lemma frames_start:
  "prefix (frames w) (frames (start options w))"
proof -
  have "frames (start options w) =
      frames (snd (create options [(''hostname'', os_hostname w), (''username'', os_username w)]
        (start_disposed w)))"
    by (simp add: start_eq frames_def)
  then show ?thesis
    by (metis frames_create frames_start_disposed prefixI)
qed

lemma frames_step: "prefix (frames w) (frames (step e w))"
proof (cases e)
  case (Call sid m)
  then show ?thesis
    by (cases m) (simp_all add: frames_resume frames_pause frames_dispose)
next
  case (Create options labels)
  then show ?thesis by (simp add: frames_create)
next
  case (Start options)
  then show ?thesis by (simp add: frames_start)
next
  case (Tick t)
  then show ?thesis by (simp add: frames_tick)
next
  case (Complete r error)
  then show ?thesis by (simp add: frames_complete)
next
  case UncaughtException
  then show ?thesis by (simp add: frames_uncaughtException)
qed

lemma frames_run: "prefix (frames w) (frames (run es w))"
proof (induction es arbitrary: w)
  case Nil
  then show ?case by (simp add: run_def)
next
  case (Cons e es)
  have "prefix (frames w) (frames (step e w))" by (rule frames_step)
  moreover have "prefix (frames (step e w)) (frames (run es (step e w)))" by (rule Cons.IH)
  ultimately show ?case by (simp add: run_def)
qed

lemma session_kept:
  assumes "prefix (frames w) (frames w')" and "sid < length (sessions w)"
  shows "sid < length (sessions w') \<and> frame (sessions w' ! sid) = frame (sessions w ! sid)"
proof -
  from assms(1) obtain zs where z: "frames w' = frames w @ zs" by (auto simp: prefix_def)
  have l: "length (frames w) = length (sessions w)" "length (frames w') = length (sessions w')"
    by (simp_all add: frames_def)
  from z l assms(2) have lt: "sid < length (sessions w')" by (metis length_append trans_less_add1)
  have "frames w' ! sid = frames w ! sid" using z assms(2) l by (simp add: nth_append)
  with lt assms(2) show ?thesis by (simp add: frames_def)
qed

subsection \<open>Requests issued\<close>

lemma map_filter_update:
  "(\<And>x. P (f x) = P x \<and> g (f x) = g x) \<Longrightarrow>
     map g (filter P (xs[i := f (xs ! i)])) = map g (filter P xs)"
proof (induction xs arbitrary: i)
  case Nil
  then show ?case by simp
next
  case (Cons x xs)
  then show ?case by (cases i) simp_all
qed

lemma issued_same: "requests w' = requests w \<Longrightarrow> issued sid v w' = issued sid v w"
  by (simp add: issued_def)

lemma issued_done:
  "requests w' = (requests w)[r := (requests w ! r)\<lparr>r_done := True\<rparr>] \<Longrightarrow>
     issued sid v w' = issued sid v w"
  by (simp add: issued_def map_filter_update)

lemma issued_resume: "issued sid v (resume x w) = issued sid v w"
  by (simp add: issued_def resume_eq)

lemma issued_pause: "issued sid v (pause x w) = issued sid v w"
  by (simp add: issued_def pause_eq)

lemma issued_pushStats:
  "issued sid v (pushStats x w) =
     issued sid v w @ (if x = sid \<and> v = PushAdd then [params (sessions w ! x)] else [])"
  by (auto simp: issued_def pushStats_eq)

lemma issued_dispose:
  "issued sid v (snd (dispose x w)) =
     issued sid v w @ (if x = sid \<and> v = Delete then [params (sessions w ! x)] else [])"
  by (auto simp: issued_def dispose_eq)

lemma issued_handler:
  "issued sid v (uncaughtException_handler x w) =
     issued sid v w @ (if x = sid \<and> v = Delete then [params (sessions w ! x)] else [])"
  by (auto simp: issued_def handler_eq)

lemma issued_create:
  "issued sid v (snd (create options labels w)) =
     issued sid v w @
       (if sid = length (sessions w) \<and> v = PushAdd
        then [\<lparr>jobName = metricsJobName options, groupings = labels\<rparr>] else [])"
  by (auto simp: issued_def create_requests)

lemma issued_new:
  "issued sid v (snd (new_MetricsClient u pushInt job grp w)) =
     issued sid v w @
       (if sid = length (sessions w) \<and> v = PushAdd
        then [\<lparr>jobName = job, groupings = grp\<rparr>] else [])"
  by (auto simp: issued_def new_requests)

lemma issued_tick:
  "issued sid v (tick t w) =
     issued sid v w @
       (if t < length (timers w) \<and> t_armed (timers w ! t) \<and> t_this (timers w ! t) = sid \<and>
           v = PushAdd
        then [params (sessions w ! sid)] else [])"
  by (auto simp: tick_def issued_pushStats)

lemma issued_complete: "issued sid v (complete r error w) = issued sid v w"
proof (cases "r < length (requests w) \<and> \<not> r_done (requests w ! r)")
  case True
  let ?w = "w\<lparr>requests := (requests w)[r := (requests w ! r)\<lparr>r_done := True\<rparr>]\<rparr>"
  have "issued sid v (run_callback (r_callback (requests w ! r)) error ?w) = issued sid v ?w"
    by (cases "r_callback (requests w ! r)")
      (simp_all add: issued_def pushStats_callback_eq dispose_callback_eq)
  moreover have "issued sid v ?w = issued sid v w"
    by (rule issued_done) simp
  ultimately show ?thesis using True by (simp add: complete_def)
next
  case False
  then show ?thesis by (auto simp: complete_def)
qed

lemma issued_start_disposed:
  "issued sid v (start_disposed w) =
     issued sid v w @
       (if default_client w = Some sid \<and> v = Delete then [params (sessions w ! sid)] else [])"
  by (cases "default_client w") (auto simp: start_disposed_def issued_dispose)

lemma sessions_start_disposed: "length (sessions (start_disposed w)) = length (sessions w)"
  by (cases "default_client w") (simp_all add: start_disposed_def dispose_eq)

lemma issued_start:
  "issued sid v (start options w) =
     issued sid v (start_disposed w) @
       (if sid = length (sessions w) \<and> v = PushAdd
        then [\<lparr>jobName = metricsJobName options,
               groupings = [(''hostname'', os_hostname w), (''username'', os_username w)]\<rparr>]
        else [])"
proof -
  have "issued sid v (start options w) =
      issued sid v (snd (create options
        [(''hostname'', os_hostname w), (''username'', os_username w)] (start_disposed w)))"
    by (rule issued_same) (simp add: start_eq)
  then show ?thesis by (simp add: issued_create sessions_start_disposed)
qed

lemma params_handler:
  "params (sessions (uncaughtException_handler h w) ! sid) = params (sessions w ! sid)"
  by (cases "h = sid") (simp_all add: handler_eq upd_nth_field)

lemma issued_fold_handler:
  "set (issued sid v (fold uncaughtException_handler hs w)) \<subseteq>
     insert (params (sessions w ! sid)) (set (issued sid v w))"
proof (induction hs arbitrary: w)
  case Nil
  then show ?case by auto
next
  case (Cons h hs)
  have "set (issued sid v (fold uncaughtException_handler hs (uncaughtException_handler h w)))
      \<subseteq> insert (params (sessions (uncaughtException_handler h w) ! sid))
          (set (issued sid v (uncaughtException_handler h w)))"
    by (rule Cons.IH)
  then show ?case by (auto simp: params_handler issued_handler split: if_splits)
qed

lemma issued_uncaughtException:
  "set (issued sid v (uncaughtException w)) \<subseteq>
     insert (params (sessions w ! sid)) (set (issued sid v w))"
proof -
  have "issued sid v (w\<lparr>hooks := []\<rparr>) = issued sid v w" by (simp add: issued_def)
  with issued_fold_handler [of sid v "hooks w" "w\<lparr>hooks := []\<rparr>"]
  show ?thesis by (simp add: uncaughtException_def)
qed

lemma issued_step:
  assumes "sid < length (sessions w)"
  shows "set (issued sid v (step e w)) \<subseteq>
     insert (params (sessions w ! sid)) (set (issued sid v w))"
proof (cases e)
  case (Call x m)
  show ?thesis
  proof (cases "x < length (sessions w)")
    case True
    with Call show ?thesis
      by (cases m) (auto simp: issued_resume issued_pause issued_dispose)
  next
    case False
    with Call show ?thesis by auto
  qed
next
  case (Create options labels)
  with assms show ?thesis by (auto simp: issued_create)
next
  case (Start options)
  with assms show ?thesis by (auto simp: issued_start issued_start_disposed)
next
  case (Tick t)
  then show ?thesis by (auto simp: issued_tick)
next
  case (Complete r error)
  then show ?thesis by (auto simp: issued_complete)
next
  case UncaughtException
  then show ?thesis using issued_uncaughtException by simp
qed

lemma params_frame: "frame s' = frame s \<Longrightarrow> params s' = params s"
proof -
  assume "frame s' = frame s"
  then have "params (frame s') = params (frame s)" by simp
  then show ?thesis by (simp add: frame_def)
qed

lemma issued_run:
  "sid < length (sessions w) \<Longrightarrow>
     set (issued sid v (run es w)) \<subseteq> insert (params (sessions w ! sid)) (set (issued sid v w))"
proof (induction es arbitrary: w)
  case Nil
  then show ?case by (auto simp: run_def)
next
  case (Cons e es)
  from session_kept [OF frames_step Cons.prems, of e]
  have k: "sid < length (sessions (step e w))"
    and f: "frame (sessions (step e w) ! sid) = frame (sessions w ! sid)"
    by simp_all
  have p: "params (sessions (step e w) ! sid) = params (sessions w ! sid)"
    by (rule params_frame [OF f])
  have a: "set (issued sid v (run es (step e w))) \<subseteq>
      insert (params (sessions w ! sid)) (set (issued sid v (step e w)))"
    using Cons.IH [OF k] p by simp
  have b: "set (issued sid v (step e w)) \<subseteq>
      insert (params (sessions w ! sid)) (set (issued sid v w))"
    by (rule issued_step [OF Cons.prems])
  have c: "run (e # es) w = run es (step e w)" by (simp add: run_def)
  from a b show ?case unfolding c by blast
qed

subsection \<open>Armed timers\<close>

lemma armed_iff:
  "t \<in> set (armed_timers sid w) \<longleftrightarrow>
     t < length (timers w) \<and> t_this (timers w ! t) = sid \<and> t_armed (timers w ! t)"
  by (auto simp: armed_timers_def)

lemma armed_same: "timers w' = timers w \<Longrightarrow> armed_timers sid w' = armed_timers sid w"
  by (simp add: armed_timers_def)

lemma length_disarm: "length (disarm h ts) = length ts"
  by (cases h) (simp_all add: disarm_def)

lemma this_disarm: "t_this (disarm h ts ! t) = t_this (ts ! t)"
proof (cases h)
  case None
  then show ?thesis by (simp add: disarm_def)
next
  case (Some a)
  then show ?thesis
    by (cases "a < length ts") (simp_all add: disarm_def nth_list_update list_update_beyond)
qed

lemma armed_disarm:
  "t_armed (disarm h ts ! t) \<longleftrightarrow> t_armed (ts ! t) \<and> (h = Some t \<longrightarrow> length ts \<le> t)"
proof (cases h)
  case None
  then show ?thesis by (simp add: disarm_def)
next
  case (Some a)
  then show ?thesis
    by (cases "a < length ts") (auto simp: disarm_def nth_list_update list_update_beyond)
qed

lemma armed_disarmed:
  "timers w' = disarm h (timers w) \<Longrightarrow>
     set (armed_timers sid w') = set (armed_timers sid w) - set_option h"
  by (auto simp: armed_iff length_disarm this_disarm armed_disarm)

lemma armed_appended:
  "timers w' = timers w @ [\<lparr>t_this = x, t_delay = d, t_armed = True\<rparr>] \<Longrightarrow>
     set (armed_timers sid w') =
       set (armed_timers sid w) \<union> (if x = sid then {length (timers w)} else {})"
  by (auto simp: armed_iff nth_append less_Suc_eq)

lemma armed_pause:
  "set (armed_timers sid (pause x w)) =
     set (armed_timers sid w) - set_option (interval (sessions w ! x))"
  by (rule armed_disarmed) (simp add: pause_eq)

lemma armed_dispose:
  "set (armed_timers sid (snd (dispose x w))) =
     set (armed_timers sid w) - set_option (interval (sessions w ! x))"
  by (rule armed_disarmed) (simp add: dispose_eq)

lemma armed_handler:
  "set (armed_timers sid (uncaughtException_handler x w)) =
     set (armed_timers sid w) - set_option (interval (sessions w ! x))"
  by (rule armed_disarmed) (simp add: handler_eq)

lemma armed_resume:
  "set (armed_timers sid (resume x w)) =
     set (armed_timers sid w) \<union> (if x = sid then {length (timers w)} else {})"
  by (rule armed_appended) (simp add: resume_eq)

lemma armed_create:
  "set (armed_timers sid (snd (create options labels w))) =
     set (armed_timers sid w) \<union>
       (if length (sessions w) = sid then {length (timers w)} else {})"
  by (rule armed_appended) (simp add: create_timers)

lemma armed_new:
  "set (armed_timers sid (snd (new_MetricsClient u pushInt job grp w))) =
     set (armed_timers sid w) \<union>
       (if length (sessions w) = sid then {length (timers w)} else {})"
  by (rule armed_appended) (simp add: new_timers)

lemma armed_tick: "armed_timers sid (tick t w) = armed_timers sid w"
  by (rule armed_same) (simp add: tick_def pushStats_eq)

lemma armed_complete: "armed_timers sid (complete r error w) = armed_timers sid w"
proof (rule armed_same, cases "r < length (requests w) \<and> \<not> r_done (requests w ! r)")
  case True
  then show "timers (complete r error w) = timers w"
    by (cases "r_callback (requests w ! r)")
      (simp_all add: complete_def pushStats_callback_eq dispose_callback_eq)
next
  case False
  then show "timers (complete r error w) = timers w" by (auto simp: complete_def)
qed

lemma armed_start_disposed:
  "set (armed_timers sid (start_disposed w)) \<subseteq> set (armed_timers sid w)"
  by (cases "default_client w") (auto simp: start_disposed_def armed_dispose)

lemma armed_start:
  "sid < length (sessions w) \<Longrightarrow>
     set (armed_timers sid (start options w)) \<subseteq> set (armed_timers sid w)"
proof -
  assume a: "sid < length (sessions w)"
  have "armed_timers sid (start options w) =
      armed_timers sid (snd (create options
        [(''hostname'', os_hostname w), (''username'', os_username w)] (start_disposed w)))"
    by (rule armed_same) (simp add: start_eq)
  with a armed_start_disposed [of sid w] show ?thesis
    by (auto simp: armed_create sessions_start_disposed)
qed

lemma armed_fold_handler:
  "set (armed_timers sid (fold uncaughtException_handler hs w)) \<subseteq> set (armed_timers sid w)"
proof (induction hs arbitrary: w)
  case Nil
  then show ?case by simp
next
  case (Cons h hs)
  have "set (armed_timers sid (fold uncaughtException_handler hs (uncaughtException_handler h w)))
      \<subseteq> set (armed_timers sid (uncaughtException_handler h w))"
    by (rule Cons.IH)
  also have "\<dots> \<subseteq> set (armed_timers sid w)" by (auto simp: armed_handler)
  finally show ?case by simp
qed

lemma armed_uncaughtException:
  "set (armed_timers sid (uncaughtException w)) \<subseteq> set (armed_timers sid w)"
proof -
  have "armed_timers sid (w\<lparr>hooks := []\<rparr>) = armed_timers sid w" by (simp add: armed_timers_def)
  with armed_fold_handler [of sid "hooks w" "w\<lparr>hooks := []\<rparr>"]
  show ?thesis by (simp add: uncaughtException_def)
qed

lemma armed_step:
  assumes "sid < length (sessions w)" and "e \<noteq> Call sid Resume"
  shows "set (armed_timers sid (step e w)) \<subseteq> set (armed_timers sid w)"
proof (cases e)
  case (Call x m)
  show ?thesis
  proof (cases "x < length (sessions w)")
    case True
    with Call assms(2) show ?thesis
      by (cases m) (auto simp: armed_resume armed_pause armed_dispose)
  next
    case False
    with Call show ?thesis by simp
  qed
next
  case (Create options labels)
  with assms(1) show ?thesis by (auto simp: armed_create)
next
  case (Start options)
  with assms(1) show ?thesis by (simp add: armed_start)
next
  case (Tick t)
  then show ?thesis by (simp add: armed_tick)
next
  case (Complete r error)
  then show ?thesis by (simp add: armed_complete)
next
  case UncaughtException
  then show ?thesis by (simp add: armed_uncaughtException)
qed

subsection \<open>A session that is not resumed\<close>

lemma interval_cleared:
  "interval (xs ! sid) = None \<Longrightarrow> interval (xs[x := (xs ! x)\<lparr>interval := None\<rparr>] ! sid) = None"
  by (cases "x = sid"; cases "x < length xs") (simp_all add: list_update_beyond)

lemma idle_fold_handler:
  "interval (sessions w ! sid) = None \<Longrightarrow>
     interval (sessions (fold uncaughtException_handler hs w) ! sid) = None"
proof (induction hs arbitrary: w)
  case Nil
  then show ?case by simp
next
  case (Cons h hs)
  from Cons.prems have "interval (sessions (uncaughtException_handler h w) ! sid) = None"
    by (simp add: handler_eq interval_cleared)
  then show ?case using Cons.IH by simp
qed

lemma idle_start_disposed:
  "interval (sessions w ! sid) = None \<Longrightarrow> interval (sessions (start_disposed w) ! sid) = None"
  by (cases "default_client w") (simp_all add: start_disposed_def dispose_eq interval_cleared)

lemma idle_step:
  assumes "sid < length (sessions w)" and "e \<noteq> Call sid Resume"
    and "interval (sessions w ! sid) = None"
  shows "interval (sessions (step e w) ! sid) = None"
proof (cases e)
  case (Call x m)
  show ?thesis
  proof (cases "x < length (sessions w)")
    case True
    with Call assms(2,3) show ?thesis
      by (cases m) (auto simp: resume_eq pause_eq dispose_eq interval_cleared)
  next
    case False
    with Call assms(3) show ?thesis by simp
  qed
next
  case (Create options labels)
  with assms(1,3) show ?thesis by (simp add: create_sessions nth_append)
next
  case (Start options)
  from assms(1) have "sid < length (sessions (start_disposed w))"
    by (simp add: sessions_start_disposed)
  with Start idle_start_disposed [OF assms(3)] show ?thesis
    by (simp add: start_eq create_sessions nth_append)
next
  case (Tick t)
  with assms(3) show ?thesis by (simp add: tick_def pushStats_eq)
next
  case (Complete r error)
  have "sessions (complete r error w) = sessions w"
  proof (cases "r < length (requests w) \<and> \<not> r_done (requests w ! r)")
    case True
    then show ?thesis
      by (cases "r_callback (requests w ! r)")
        (simp_all add: complete_def pushStats_callback_eq dispose_callback_eq)
  next
    case False
    then show ?thesis by (auto simp: complete_def)
  qed
  with Complete assms(3) show ?thesis by simp
next
  case UncaughtException
  have "interval (sessions (w\<lparr>hooks := []\<rparr>) ! sid) = None" using assms(3) by simp
  from idle_fold_handler [OF this] UncaughtException show ?thesis
    by (simp add: uncaughtException_def)
qed

lemma pushes_fold_handler:
  "issued sid PushAdd (fold uncaughtException_handler hs w) = issued sid PushAdd w"
  by (induction hs arbitrary: w) (simp_all add: issued_handler)

lemma pushes_step:
  assumes "sid < length (sessions w)" and "e \<noteq> Call sid Resume"
    and "armed_timers sid w = []"
  shows "issued sid PushAdd (step e w) = issued sid PushAdd w"
proof (cases e)
  case (Call x m)
  then show ?thesis
    by (cases m) (simp_all add: issued_resume issued_pause issued_dispose)
next
  case (Create options labels)
  with assms(1) show ?thesis by (simp add: issued_create)
next
  case (Start options)
  with assms(1) show ?thesis by (simp add: issued_start issued_start_disposed)
next
  case (Tick t)
  have "\<not> (t < length (timers w) \<and> t_armed (timers w ! t) \<and> t_this (timers w ! t) = sid)"
    using assms(3) armed_iff [of t sid w] by auto
  with Tick show ?thesis by (simp add: issued_tick)
next
  case (Complete r error)
  then show ?thesis by (simp add: issued_complete)
next
  case UncaughtException
  have "issued sid PushAdd (w\<lparr>hooks := []\<rparr>) = issued sid PushAdd w" by (simp add: issued_def)
  with UncaughtException show ?thesis
    by (simp add: uncaughtException_def pushes_fold_handler)
qed

lemma run_Cons: "run (e # es) w = run es (step e w)"
  by (simp add: run_def)

lemma run_Nil: "run [] w = w"
  by (simp add: run_def)

lemma valid_step: "sid < length (sessions w) \<Longrightarrow> sid < length (sessions (step e w))"
  using session_kept [OF frames_step] by blast

lemma armed_run:
  "sid < length (sessions w) \<Longrightarrow> Call sid Resume \<notin> set es \<Longrightarrow>
     set (armed_timers sid (run es w)) \<subseteq> set (armed_timers sid w)"
proof (induction es arbitrary: w)
  case Nil
  then show ?case by (simp add: run_Nil)
next
  case (Cons e es)
  from Cons.prems have ne: "e \<noteq> Call sid Resume" and rest: "Call sid Resume \<notin> set es"
    by auto
  have "set (armed_timers sid (run es (step e w))) \<subseteq> set (armed_timers sid (step e w))"
    by (rule Cons.IH [OF valid_step [OF Cons.prems(1)] rest])
  also have "\<dots> \<subseteq> set (armed_timers sid w)"
    by (rule armed_step [OF Cons.prems(1) ne])
  finally show ?case by (simp add: run_Cons)
qed

lemma idle_run:
  "sid < length (sessions w) \<Longrightarrow> Call sid Resume \<notin> set es \<Longrightarrow>
     interval (sessions w ! sid) = None \<Longrightarrow> interval (sessions (run es w) ! sid) = None"
proof (induction es arbitrary: w)
  case Nil
  then show ?case by (simp add: run_Nil)
next
  case (Cons e es)
  from Cons.prems have ne: "e \<noteq> Call sid Resume" and rest: "Call sid Resume \<notin> set es"
    by auto
  have "interval (sessions (step e w) ! sid) = None"
    by (rule idle_step [OF Cons.prems(1) ne Cons.prems(3)])
  from Cons.IH [OF valid_step [OF Cons.prems(1)] rest this] show ?case
    by (simp add: run_Cons)
qed

lemma pushes_run:
  "sid < length (sessions w) \<Longrightarrow> Call sid Resume \<notin> set es \<Longrightarrow>
     armed_timers sid w = [] \<Longrightarrow> issued sid PushAdd (run es w) = issued sid PushAdd w"
proof (induction es arbitrary: w)
  case Nil
  then show ?case by (simp add: run_Nil)
next
  case (Cons e es)
  from Cons.prems have ne: "e \<noteq> Call sid Resume" and rest: "Call sid Resume \<notin> set es"
    by auto
  from armed_step [OF Cons.prems(1) ne] Cons.prems(3)
  have q: "armed_timers sid (step e w) = []" by simp
  have "issued sid PushAdd (run es (step e w)) = issued sid PushAdd (step e w)"
    by (rule Cons.IH [OF valid_step [OF Cons.prems(1)] rest q])
  also have "\<dots> = issued sid PushAdd w"
    by (rule pushes_step [OF Cons.prems(1) ne Cons.prems(3)])
  finally show ?case by (simp add: run_Cons)
qed





lemma deletes_fold_handler:
  "issued sid Delete (fold uncaughtException_handler hs w) =
     issued sid Delete w @ replicate (count_list hs sid) (params (sessions w ! sid))"
proof (induction hs arbitrary: w)
  case Nil
  then show ?case by simp
next
  case (Cons h hs)
  show ?case
    by (simp add: Cons.IH params_handler issued_handler replicate_app_Cons_same)
qed

lemma deletes_uncaughtException:
  "issued sid Delete (uncaughtException w) =
     issued sid Delete w @ replicate (count_list (hooks w) sid) (params (sessions w ! sid))"
proof -
  have "issued sid Delete (w\<lparr>hooks := []\<rparr>) = issued sid Delete w" by (simp add: issued_def)
  then show ?thesis by (simp add: uncaughtException_def deletes_fold_handler)
qed

lemma quiet_after_dispose:
  assumes "single_armed sid w"
  shows "armed_timers sid (snd (dispose sid w)) = []"
proof -
  have "set (armed_timers sid (snd (dispose sid w))) = {}"
    using assms by (auto simp: armed_dispose single_armed_def list_all_iff)
  then show ?thesis by simp
qed

lemma idle_after_dispose:
  "sid < length (sessions w) \<Longrightarrow> interval (sessions (snd (dispose sid w)) ! sid) = None"
  by (simp add: dispose_eq)

lemma valid_after_dispose:
  "sid < length (sessions w) \<Longrightarrow> sid < length (sessions (snd (dispose sid w)))"
  by (simp add: dispose_eq)

subsection \<open>Well-formed worlds\<close>

lemma well_formed_iff:
  "well_formed w \<longleftrightarrow>
     (\<forall>t\<in>set (timers w). t_this t < length (sessions w)) \<and>
     (\<forall>h\<in>set (hooks w). h < length (sessions w)) \<and>
     (\<forall>r\<in>set (requests w). cb_this (r_callback r) < length (sessions w)) \<and>
     (\<forall>d. default_client w = Some d \<longrightarrow> d < length (sessions w))"
  by (auto simp: well_formed_def list_all_iff split: option.splits)

lemma set_disarm:
  assumes "t \<in> set (disarm h ts)"
  shows "\<exists>t'\<in>set ts. t_this t = t_this t'"
proof (cases h)
  case None
  with assms show ?thesis by (auto simp: disarm_def)
next
  case (Some a)
  show ?thesis
  proof (cases "a < length ts")
    case True
    from assms Some have "t \<in> insert ((ts ! a)\<lparr>t_armed := False\<rparr>) (set ts)"
      using set_update_subset_insert [of ts a] by (auto simp: disarm_def)
    with True show ?thesis by (auto intro: bexI [of _ "ts ! a"])
  next
    case False
    with assms Some show ?thesis by (auto simp: disarm_def list_update_beyond)
  qed
qed

lemma set_done:
  assumes "q \<in> set (rs[r := (rs ! r)\<lparr>r_done := True\<rparr>])"
  shows "\<exists>q'\<in>set rs. r_callback q = r_callback q'"
proof (cases "r < length rs")
  case True
  from assms have "q \<in> insert ((rs ! r)\<lparr>r_done := True\<rparr>) (set rs)"
    using set_update_subset_insert [of rs r] by auto
  with True show ?thesis by (auto intro: bexI [of _ "rs ! r"])
next
  case False
  with assms show ?thesis by (auto simp: list_update_beyond)
qed

lemma wf_resume: "well_formed w \<Longrightarrow> x < length (sessions w) \<Longrightarrow> well_formed (resume x w)"
  by (auto simp: well_formed_iff resume_eq)

lemma wf_pause: "well_formed w \<Longrightarrow> well_formed (pause x w)"
  by (auto simp: well_formed_iff pause_eq dest: set_disarm)

lemma wf_pushStats:
  "well_formed w \<Longrightarrow> x < length (sessions w) \<Longrightarrow> well_formed (pushStats x w)"
  by (auto simp: well_formed_iff pushStats_eq)

lemma wf_dispose:
  "well_formed w \<Longrightarrow> x < length (sessions w) \<Longrightarrow> well_formed (snd (dispose x w))"
  by (auto simp: well_formed_iff dispose_eq dest: set_disarm)

lemma wf_handler:
  "well_formed w \<Longrightarrow> x < length (sessions w) \<Longrightarrow> well_formed (uncaughtException_handler x w)"
  by (auto simp: well_formed_iff handler_eq dest: set_disarm)

lemma wf_create: "well_formed w \<Longrightarrow> well_formed (snd (create options labels w))"
  by (auto simp: well_formed_iff create_simps less_Suc_eq)

lemma wf_start_disposed: "well_formed w \<Longrightarrow> well_formed (start_disposed w)"
proof (cases "default_client w")
  case None
  assume "well_formed w"
  with None show ?thesis by (simp add: start_disposed_def)
next
  case (Some d)
  assume w: "well_formed w"
  with Some have "d < length (sessions w)" by (simp add: well_formed_iff)
  with w Some show ?thesis by (simp add: start_disposed_def wf_dispose)
qed

lemma wf_start: "well_formed w \<Longrightarrow> well_formed (start options w)"
proof -
  assume "well_formed w"
  then have "well_formed (snd (create options
      [(''hostname'', os_hostname w), (''username'', os_username w)] (start_disposed w)))"
    by (intro wf_create wf_start_disposed)
  then show ?thesis
    by (auto simp: well_formed_iff start_eq create_sessions sessions_start_disposed)
qed

lemma wf_tick: "well_formed w \<Longrightarrow> well_formed (tick t w)"
proof (cases "t < length (timers w) \<and> t_armed (timers w ! t)")
  case True
  assume w: "well_formed w"
  with True have "t_this (timers w ! t) < length (sessions w)"
    by (simp add: well_formed_iff)
  with w True show ?thesis by (simp add: tick_def wf_pushStats)
next
  case False
  assume "well_formed w"
  with False show ?thesis by (auto simp: tick_def)
qed

lemma wf_complete: "well_formed w \<Longrightarrow> well_formed (complete r error w)"
proof (cases "r < length (requests w) \<and> \<not> r_done (requests w ! r)")
  case True
  assume w: "well_formed w"
  let ?w = "w\<lparr>requests := (requests w)[r := (requests w ! r)\<lparr>r_done := True\<rparr>]\<rparr>"
  have d: "well_formed ?w"
    using w by (auto simp: well_formed_iff dest: set_done)
  have "well_formed (run_callback (r_callback (requests w ! r)) error ?w)"
  proof (cases "r_callback (requests w ! r)")
    case (PushStatsCallback sid)
    with d show ?thesis by (auto simp: well_formed_iff pushStats_callback_eq)
  next
    case (DisposeCallback sid pid)
    with d show ?thesis by (auto simp: well_formed_iff dispose_callback_eq)
  qed
  with True show ?thesis by (simp add: complete_def)
next
  case False
  assume "well_formed w"
  with False show ?thesis by (auto simp: complete_def)
qed

lemma wf_fold_handler:
  "well_formed w \<Longrightarrow> \<forall>h\<in>set hs. h < length (sessions w) \<Longrightarrow>
     well_formed (fold uncaughtException_handler hs w)"
proof (induction hs arbitrary: w)
  case Nil
  then show ?case by simp
next
  case (Cons h hs)
  from Cons.prems have a: "well_formed (uncaughtException_handler h w)"
    by (simp add: wf_handler)
  have "length (sessions (uncaughtException_handler h w)) = length (sessions w)"
    by (simp add: handler_eq)
  with Cons.prems have b: "\<forall>k\<in>set hs. k < length (sessions (uncaughtException_handler h w))"
    by simp
  from Cons.IH [OF a b] show ?case by simp
qed

lemma wf_uncaughtException: "well_formed w \<Longrightarrow> well_formed (uncaughtException w)"
proof -
  assume w: "well_formed w"
  then have a: "well_formed (w\<lparr>hooks := []\<rparr>)" by (simp add: well_formed_iff)
  from w have b: "\<forall>h\<in>set (hooks w). h < length (sessions (w\<lparr>hooks := []\<rparr>))"
    by (simp add: well_formed_iff)
  from wf_fold_handler [OF a b] show ?thesis by (simp add: uncaughtException_def)
qed

lemma wf_step: "well_formed w \<Longrightarrow> well_formed (step e w)"
proof (cases e)
  case (Call x m)
  assume "well_formed w"
  with Call show ?thesis
    by (cases m) (simp_all add: wf_resume wf_pause wf_dispose)
next
  case (Create options labels)
  assume "well_formed w"
  with Create show ?thesis by (simp add: wf_create)
next
  case (Start options)
  assume "well_formed w"
  with Start show ?thesis by (simp add: wf_start)
next
  case (Tick t)
  assume "well_formed w"
  with Tick show ?thesis by (simp add: wf_tick)
next
  case (Complete r error)
  assume "well_formed w"
  with Complete show ?thesis by (simp add: wf_complete)
next
  case UncaughtException
  assume "well_formed w"
  with UncaughtException show ?thesis by (simp add: wf_uncaughtException)
qed

lemma wf_run: "well_formed w \<Longrightarrow> well_formed (run es w)"
  by (induction es arbitrary: w) (simp_all add: run_Nil run_Cons wf_step)

lemma wf_boot: "well_formed (boot h u p)"
  by (simp add: well_formed_def boot_def)

lemma wf_reachable: "well_formed (run es (boot h u p))"
  by (rule wf_run [OF wf_boot])

lemma wf_fresh: "well_formed w \<Longrightarrow> issued (length (sessions w)) v w = []"
  by (auto simp: well_formed_iff issued_def filter_empty_conv)

subsection \<open>Consistent worlds\<close>

lemma handles_armed_iff:
  "handles_armed w \<longleftrightarrow>
     (\<forall>i t. i < length (sessions w) \<longrightarrow> interval (sessions w ! i) = Some t \<longrightarrow>
        t < length (timers w) \<and> t_armed (timers w ! t) \<and> t_this (timers w ! t) = i)"
  by (auto simp: handles_armed_def list_all_iff split: option.splits)

lemma ha_same:
  "sessions w' = sessions w \<Longrightarrow> timers w' = timers w \<Longrightarrow> handles_armed w' = handles_armed w"
  by (simp add: handles_armed_iff)

lemma ha_resume:
  assumes "handles_armed w" and "x < length (sessions w)"
  shows "handles_armed (resume x w)"
  unfolding handles_armed_iff
proof (intro allI impI)
  fix i t
  assume i: "i < length (sessions (resume x w))"
    and h: "interval (sessions (resume x w) ! i) = Some t"
  show "t < length (timers (resume x w)) \<and> t_armed (timers (resume x w) ! t) \<and>
      t_this (timers (resume x w) ! t) = i"
  proof (cases "i = x")
    case True
    with h assms(2) have "t = length (timers w)" by (simp add: resume_eq)
    with True show ?thesis by (simp add: resume_eq)
  next
    case False
    with i h have "i < length (sessions w)" "interval (sessions w ! i) = Some t"
      by (simp_all add: resume_eq)
    with assms(1) have "t < length (timers w) \<and> t_armed (timers w ! t) \<and> t_this (timers w ! t) = i"
      by (simp add: handles_armed_iff)
    then show ?thesis by (simp add: resume_eq nth_append)
  qed
qed

lemma ha_pause:
  assumes "handles_armed w" and "x < length (sessions w)"
  shows "handles_armed (pause x w)"
  unfolding handles_armed_iff
proof (intro allI impI)
  fix i t
  assume i: "i < length (sessions (pause x w))"
    and h: "interval (sessions (pause x w) ! i) = Some t"
  from h assms(2) have ne: "i \<noteq> x" by (auto simp: pause_eq)
  with i h have a: "i < length (sessions w)" "interval (sessions w ! i) = Some t"
    by (simp_all add: pause_eq)
  with assms(1) have b: "t < length (timers w)" "t_armed (timers w ! t)" "t_this (timers w ! t) = i"
    by (simp_all add: handles_armed_iff)
  have "interval (sessions w ! x) \<noteq> Some t"
  proof
    assume "interval (sessions w ! x) = Some t"
    with assms have "t_this (timers w ! t) = x" by (simp add: handles_armed_iff)
    with b(3) ne show False by simp
  qed
  with b show "t < length (timers (pause x w)) \<and> t_armed (timers (pause x w) ! t) \<and>
      t_this (timers (pause x w) ! t) = i"
    by (simp add: pause_eq length_disarm this_disarm armed_disarm)
qed

lemma ha_dispose:
  "handles_armed w \<Longrightarrow> x < length (sessions w) \<Longrightarrow> handles_armed (snd (dispose x w))"
  using ha_pause [of w x] ha_same [of "snd (dispose x w)" "pause x w"]
  by (simp add: dispose_eq pause_eq)

lemma ha_handler:
  "handles_armed w \<Longrightarrow> x < length (sessions w) \<Longrightarrow>
     handles_armed (uncaughtException_handler x w)"
  using ha_pause [of w x] ha_same [of "uncaughtException_handler x w" "pause x w"]
  by (simp add: handler_eq pause_eq)

lemma ha_create:
  assumes "handles_armed w"
  shows "handles_armed (snd (create options labels w))"
  unfolding handles_armed_iff
proof (intro allI impI)
  let ?w = "snd (create options labels w)"
  fix i t
  assume i: "i < length (sessions ?w)" and h: "interval (sessions ?w ! i) = Some t"
  show "t < length (timers ?w) \<and> t_armed (timers ?w ! t) \<and> t_this (timers ?w ! t) = i"
  proof (cases "i = length (sessions w)")
    case True
    with h have "t = length (timers w)" by (simp add: create_sessions)
    with True show ?thesis by (simp add: create_timers)
  next
    case False
    with i h have "i < length (sessions w)" "interval (sessions w ! i) = Some t"
      by (simp_all add: create_sessions nth_append)
    with assms have "t < length (timers w) \<and> t_armed (timers w ! t) \<and> t_this (timers w ! t) = i"
      by (simp add: handles_armed_iff)
    then show ?thesis by (simp add: create_timers nth_append)
  qed
qed

lemma consistent_start_disposed: "consistent w \<Longrightarrow> consistent (start_disposed w)"
proof (cases "default_client w")
  case None
  assume "consistent w"
  with None show ?thesis by (simp add: start_disposed_def)
next
  case (Some d)
  assume w: "consistent w"
  with Some have "d < length (sessions w)" by (simp add: consistent_def well_formed_iff)
  with w Some show ?thesis
    by (simp add: consistent_def start_disposed_def wf_dispose ha_dispose)
qed

lemma consistent_start: "consistent w \<Longrightarrow> consistent (start options w)"
proof -
  let ?c = "snd (create options
      [(''hostname'', os_hostname w), (''username'', os_username w)] (start_disposed w))"
  assume w: "consistent w"
  then have "handles_armed ?c"
    using consistent_start_disposed [of w] by (simp add: consistent_def ha_create)
  moreover have "handles_armed (start options w) = handles_armed ?c"
    by (rule ha_same) (simp_all add: start_eq)
  ultimately show ?thesis using w by (simp add: consistent_def wf_start)
qed

lemma ha_tick: "handles_armed (tick t w) = handles_armed w"
  by (rule ha_same) (simp_all add: tick_def pushStats_eq)

lemma sessions_complete: "sessions (complete r error w) = sessions w"
proof (cases "r < length (requests w) \<and> \<not> r_done (requests w ! r)")
  case True
  then show ?thesis
    by (cases "r_callback (requests w ! r)")
      (simp_all add: complete_def pushStats_callback_eq dispose_callback_eq)
next
  case False
  then show ?thesis by (auto simp: complete_def)
qed

lemma timers_complete: "timers (complete r error w) = timers w"
proof (cases "r < length (requests w) \<and> \<not> r_done (requests w ! r)")
  case True
  then show ?thesis
    by (cases "r_callback (requests w ! r)")
      (simp_all add: complete_def pushStats_callback_eq dispose_callback_eq)
next
  case False
  then show ?thesis by (auto simp: complete_def)
qed

lemma ha_complete: "handles_armed (complete r error w) = handles_armed w"
  by (rule ha_same) (simp_all add: sessions_complete timers_complete)

lemma ha_fold_handler:
  "handles_armed w \<Longrightarrow> \<forall>h\<in>set hs. h < length (sessions w) \<Longrightarrow>
     handles_armed (fold uncaughtException_handler hs w)"
proof (induction hs arbitrary: w)
  case Nil
  then show ?case by simp
next
  case (Cons h hs)
  from Cons.prems have a: "handles_armed (uncaughtException_handler h w)"
    by (simp add: ha_handler)
  have "length (sessions (uncaughtException_handler h w)) = length (sessions w)"
    by (simp add: handler_eq)
  with Cons.prems have b: "\<forall>k\<in>set hs. k < length (sessions (uncaughtException_handler h w))"
    by simp
  from Cons.IH [OF a b] show ?case by simp
qed

lemma consistent_uncaughtException: "consistent w \<Longrightarrow> consistent (uncaughtException w)"
proof -
  assume w: "consistent w"
  have "handles_armed (w\<lparr>hooks := []\<rparr>) = handles_armed w" by (rule ha_same) simp_all
  with w have a: "handles_armed (w\<lparr>hooks := []\<rparr>)" by (simp add: consistent_def)
  from w have b: "\<forall>h\<in>set (hooks w). h < length (sessions (w\<lparr>hooks := []\<rparr>))"
    by (simp add: consistent_def well_formed_iff)
  from ha_fold_handler [OF a b] have "handles_armed (uncaughtException w)"
    by (simp add: uncaughtException_def)
  with w show ?thesis by (simp add: consistent_def wf_uncaughtException)
qed

lemma consistent_step: "consistent w \<Longrightarrow> consistent (step e w)"
proof (cases e)
  case (Call x m)
  assume "consistent w"
  with Call show ?thesis
    by (cases m)
      (simp_all add: consistent_def wf_resume wf_pause wf_dispose ha_resume ha_pause ha_dispose)
next
  case (Create options labels)
  assume "consistent w"
  with Create show ?thesis by (simp add: consistent_def wf_create ha_create)
next
  case (Start options)
  assume "consistent w"
  with Start show ?thesis by (simp add: consistent_start)
next
  case (Tick t)
  assume "consistent w"
  with Tick show ?thesis by (simp add: consistent_def wf_tick ha_tick)
next
  case (Complete r error)
  assume "consistent w"
  with Complete show ?thesis by (simp add: consistent_def wf_complete ha_complete)
next
  case UncaughtException
  assume "consistent w"
  with UncaughtException show ?thesis by (simp add: consistent_uncaughtException)
qed

lemma consistent_run: "consistent w \<Longrightarrow> consistent (run es w)"
  by (induction es arbitrary: w) (simp_all add: run_Nil run_Cons consistent_step)

lemma consistent_boot: "consistent (boot h u p)"
  by (simp add: consistent_def well_formed_def handles_armed_def boot_def)

lemma consistent_reachable: "consistent (run es (boot h u p))"
  by (rule consistent_run [OF consistent_boot])

lemma running_timer:
  assumes "consistent w" and "sid < length (sessions w)"
    and "interval (sessions w ! sid) = Some t"
  shows "t < length (timers w) \<and> t_armed (timers w ! t) \<and> t_this (timers w ! t) = sid"
  using assms by (simp add: consistent_def handles_armed_iff)

subsection \<open>Sessions resumed only while paused\<close>

text \<open>A session made by the constructor holds its only armed timer in its handle, and this
  stays so as long as resume is called on it only while it is not running.\<close>

lemma single_armed_iff:
  "single_armed sid w \<longleftrightarrow> set (armed_timers sid w) \<subseteq> set_option (interval (sessions w ! sid))"
  by (auto simp: single_armed_def list_all_iff)

lemma single_armed_same:
  "sessions w' = sessions w \<Longrightarrow> timers w' = timers w \<Longrightarrow>
     single_armed sid w' = single_armed sid w"
  by (simp add: single_armed_def armed_timers_def)

lemma single_armed_pause:
  assumes "single_armed sid w" and "sid < length (sessions w)"
  shows "single_armed sid (pause x w)"
proof (cases "x = sid")
  case True
  with assms show ?thesis by (auto simp: single_armed_iff armed_pause)
next
  case False
  then have "interval (sessions (pause x w) ! sid) = interval (sessions w ! sid)"
    by (simp add: pause_eq)
  with assms(1) show ?thesis by (auto simp: single_armed_iff armed_pause)
qed

lemma single_armed_dispose:
  "single_armed sid w \<Longrightarrow> sid < length (sessions w) \<Longrightarrow> single_armed sid (snd (dispose x w))"
  using single_armed_pause [of sid w x] single_armed_same [of "snd (dispose x w)" "pause x w" sid]
  by (simp add: dispose_eq pause_eq)

lemma single_armed_handler:
  "single_armed sid w \<Longrightarrow> sid < length (sessions w) \<Longrightarrow>
     single_armed sid (uncaughtException_handler x w)"
  using single_armed_pause [of sid w x]
    single_armed_same [of "uncaughtException_handler x w" "pause x w" sid]
  by (simp add: handler_eq pause_eq)

lemma single_armed_resume:
  assumes "single_armed sid w" and "sid < length (sessions w)"
    and "x = sid \<longrightarrow> \<not> running sid w"
  shows "single_armed sid (resume x w)"
proof (cases "x = sid")
  case True
  with assms(3) have "interval (sessions w ! sid) = None" by (simp add: running_def)
  with assms(1) have e: "set (armed_timers sid w) = {}" by (simp add: single_armed_iff)
  have a: "set (armed_timers sid (resume sid w)) = {length (timers w)}"
    unfolding armed_resume e by simp
  have h: "interval (sessions (resume sid w) ! sid) = Some (length (timers w))"
    using assms(2) by (simp add: resume_eq)
  show ?thesis unfolding True single_armed_iff a h by simp
next
  case False
  then have "interval (sessions (resume x w) ! sid) = interval (sessions w ! sid)"
    by (simp add: resume_eq)
  with assms(1) False show ?thesis by (simp add: single_armed_iff armed_resume)
qed

lemma single_armed_create:
  assumes "single_armed sid w" and "sid < length (sessions w)"
  shows "single_armed sid (snd (create options labels w))"
proof -
  have "interval (sessions (snd (create options labels w)) ! sid) = interval (sessions w ! sid)"
    using assms(2) by (simp add: create_sessions nth_append)
  with assms show ?thesis by (simp add: single_armed_iff armed_create)
qed

lemma single_armed_start_disposed:
  "single_armed sid w \<Longrightarrow> sid < length (sessions w) \<Longrightarrow> single_armed sid (start_disposed w)"
  by (cases "default_client w") (simp_all add: start_disposed_def single_armed_dispose)

lemma single_armed_start:
  assumes "single_armed sid w" and "sid < length (sessions w)"
  shows "single_armed sid (start options w)"
proof -
  let ?c = "snd (create options
      [(''hostname'', os_hostname w), (''username'', os_username w)] (start_disposed w))"
  have "single_armed sid ?c"
    using assms by (simp add: single_armed_create single_armed_start_disposed
        sessions_start_disposed)
  moreover have "single_armed sid (start options w) = single_armed sid ?c"
    by (rule single_armed_same) (simp_all add: start_eq)
  ultimately show ?thesis by simp
qed

lemma single_armed_fold_handler:
  "single_armed sid w \<Longrightarrow> sid < length (sessions w) \<Longrightarrow>
     single_armed sid (fold uncaughtException_handler hs w)"
proof (induction hs arbitrary: w)
  case Nil
  then show ?case by simp
next
  case (Cons h hs)
  have "length (sessions (uncaughtException_handler h w)) = length (sessions w)"
    by (simp add: handler_eq)
  with Cons.prems Cons.IH [of "uncaughtException_handler h w"] show ?case
    by (simp add: single_armed_handler)
qed

lemma single_armed_step:
  assumes "single_armed sid w" and "sid < length (sessions w)"
    and "e = Call sid Resume \<longrightarrow> \<not> running sid w"
  shows "single_armed sid (step e w)"
proof (cases e)
  case (Call x m)
  show ?thesis
  proof (cases "x < length (sessions w)")
    case True
    with Call assms show ?thesis
      by (cases m) (simp_all add: single_armed_resume single_armed_pause single_armed_dispose)
  next
    case False
    with Call assms(1) show ?thesis by simp
  qed
next
  case (Create options labels)
  with assms show ?thesis by (simp add: single_armed_create)
next
  case (Start options)
  with assms show ?thesis by (simp add: single_armed_start)
next
  case (Tick t)
  have "single_armed sid (tick t w) = single_armed sid w"
    by (rule single_armed_same) (simp_all add: tick_def pushStats_eq)
  with Tick assms(1) show ?thesis by simp
next
  case (Complete r error)
  have "single_armed sid (complete r error w) = single_armed sid w"
    by (rule single_armed_same) (simp_all add: sessions_complete timers_complete)
  with Complete assms(1) show ?thesis by simp
next
  case UncaughtException
  have "single_armed sid (w\<lparr>hooks := []\<rparr>)"
    using assms(1) single_armed_same [of "w\<lparr>hooks := []\<rparr>" w sid] by simp
  from single_armed_fold_handler [OF this] assms(2) UncaughtException show ?thesis
    by (simp add: uncaughtException_def)
qed

lemma single_armed_run:
  "single_armed sid w \<Longrightarrow> sid < length (sessions w) \<Longrightarrow> resumes_paused sid es w \<Longrightarrow>
     single_armed sid (run es w)"
proof (induction es arbitrary: w)
  case Nil
  then show ?case by (simp add: run_Nil)
next
  case (Cons e es)
  from Cons.prems have a: "single_armed sid (step e w)"
    by (simp add: single_armed_step)
  from Cons.prems have b: "resumes_paused sid es (step e w)" by simp
  from Cons.IH [OF a valid_step [OF Cons.prems(2)] b] show ?case by (simp add: run_Cons)
qed

lemma single_armed_new:
  assumes "consistent w"
  shows "single_armed (length (sessions w)) (snd (new_MetricsClient u pushInt job grp w))"
proof -
  have e: "set (armed_timers (length (sessions w)) w) = {}"
  proof (rule equals0I)
    fix t
    assume "t \<in> set (armed_timers (length (sessions w)) w)"
    then have t: "t < length (timers w)" "t_this (timers w ! t) = length (sessions w)"
      by (simp_all add: armed_iff)
    from assms t(1) have "t_this (timers w ! t) < length (sessions w)"
      by (simp add: consistent_def well_formed_iff)
    with t(2) show False by simp
  qed
  have a: "set (armed_timers (length (sessions w)) (snd (new_MetricsClient u pushInt job grp w))) =
      {length (timers w)}"
    unfolding armed_new e by simp
  have h: "interval (sessions (snd (new_MetricsClient u pushInt job grp w)) ! length (sessions w)) =
      Some (length (timers w))"
    by (simp add: new_sessions)
  show ?thesis unfolding single_armed_iff a h by simp
qed

subsection \<open>The sample worlds\<close>

lemma one_session_simps:
  "sessions one_session =
     [\<lparr>url = sample_parse ''http://gateway:9091/'', pushInterval = 1000, interval = Some 0,
       pushgateway = \<lparr>gatewayUrl = ''http://gateway:9091/''\<rparr>,
       params = \<lparr>jobName = ''svc'', groupings = [(''instance'', ''a'')]\<rparr>,
       logger = [''tweet-lib'', ''metrics'', ''client'', ''gateway:9091:9091'']\<rparr>]"
  "timers one_session = [\<lparr>t_this = 0, t_delay = 1000, t_armed = True\<rparr>]"
  "requests one_session =
     [\<lparr>r_gateway = \<lparr>gatewayUrl = ''http://gateway:9091/''\<rparr>, r_verb = PushAdd,
       r_params = \<lparr>jobName = ''svc'', groupings = [(''instance'', ''a'')]\<rparr>,
       r_callback = PushStatsCallback 0, r_done = False\<rparr>]"
  "promises one_session = []"
  "hooks one_session = [0]"
  "default_client one_session = None"
  by (simp_all add: one_session_def create_simps sample_world_def boot_def sample_options_def
      sample_labels_def sample_parse_def)

lemma started_simps:
  "sessions started =
     [\<lparr>url = sample_parse ''http://gateway:9091/'', pushInterval = 1000, interval = Some 0,
       pushgateway = \<lparr>gatewayUrl = ''http://gateway:9091/''\<rparr>,
       params = \<lparr>jobName = ''svc'',
                  groupings = [(''hostname'', ''host1''), (''username'', ''alice'')]\<rparr>,
       logger = [''tweet-lib'', ''metrics'', ''client'', ''gateway:9091:9091'']\<rparr>]"
  "default_client started = Some 0"
  "promises started = []"
  "requests started =
     [\<lparr>r_gateway = \<lparr>gatewayUrl = ''http://gateway:9091/''\<rparr>, r_verb = PushAdd,
       r_params = \<lparr>jobName = ''svc'',
                   groupings = [(''hostname'', ''host1''), (''username'', ''alice'')]\<rparr>,
       r_callback = PushStatsCallback 0, r_done = False\<rparr>]"
  by (simp_all add: started_def start_eq start_disposed_def create_simps sample_world_def
      boot_def sample_options_def sample_parse_def)

lemmas eval_simps = run_def resume_eq pause_eq dispose_eq complete_def tick_def pushStats_eq
  dispose_callback_eq pushStats_callback_eq create_simps issued_def running_def
  sample_world_def sample_options_def sample_labels_def sample_parse_def boot_def
  uncaughtException_def handler_eq disarm_def

lemma consistent_sample_world: "consistent sample_world"
  by (simp add: sample_world_def consistent_boot)

lemma consistent_one_session: "consistent one_session"
  using consistent_step [OF consistent_sample_world, of "Create sample_options sample_labels"]
  by (simp add: one_session_def)


lemma single_armed_one_session: "single_armed 0 one_session"
  by (auto simp: single_armed_def list_all_iff armed_iff one_session_simps)

section \<open>The claims\<close>

subsection \<open>C1\<close>

text \<open>
  C1, as amended. On a session whose armed timers are all held by its handle (as they are
  when resume was only called on it while it was not running), dispose begins with pause
  (the session and the timers are as pause leaves them: not running, no timer armed),
  sends exactly one delete request for the session's identity and returns a fresh pending
  promise; the promise resolves when the delete succeeds and rejects with the gateway's
  error when it fails; and no push of the session is sent afterwards, whatever events
  follow, as long as resume is not called on it.
\<close>
theorem dispose_ends_pushes:
  assumes "sid < length (sessions w)" and "single_armed sid w"
    and "Call sid Resume \<notin> set es"
  shows
  "fst (dispose sid w) = length (promises w) \<and>
   sessions (snd (dispose sid w)) = sessions (pause sid w) \<and>
   timers (snd (dispose sid w)) = timers (pause sid w) \<and>
   \<not> running sid (snd (dispose sid w)) \<and>
   armed_timers sid (snd (dispose sid w)) = [] \<and>
   requests (snd (dispose sid w)) = requests w @
     [\<lparr>r_gateway = pushgateway (sessions w ! sid), r_verb = Delete,
       r_params = params (sessions w ! sid),
       r_callback = DisposeCallback sid (length (promises w)), r_done = False\<rparr>] \<and>
   promises (snd (dispose sid w)) = promises w @ [Pending] \<and>
   promises (complete (length (requests w)) None (snd (dispose sid w))) =
     promises w @ [Resolved] \<and>
   promises (complete (length (requests w)) (Some err) (snd (dispose sid w))) =
     promises w @ [Rejected err] \<and>
   issued sid PushAdd (run es (snd (dispose sid w))) = issued sid PushAdd w"
proof -
  let ?w = "snd (dispose sid w)"
  have c1: "fst (dispose sid w) = length (promises w)" by (simp add: dispose_eq)
  have c2: "sessions ?w = sessions (pause sid w)" by (simp add: dispose_eq pause_eq)
  have c3: "timers ?w = timers (pause sid w)" by (simp add: dispose_eq pause_eq)
  have c4: "\<not> running sid ?w"
    using idle_after_dispose [OF assms(1)] by (simp add: running_def)
  have c5: "armed_timers sid ?w = []" by (rule quiet_after_dispose [OF assms(2)])
  have c6: "requests ?w = requests w @
     [\<lparr>r_gateway = pushgateway (sessions w ! sid), r_verb = Delete,
       r_params = params (sessions w ! sid),
       r_callback = DisposeCallback sid (length (promises w)), r_done = False\<rparr>]"
    by (simp add: dispose_eq)
  have c7: "promises ?w = promises w @ [Pending]" by (simp add: dispose_eq)
  have c8: "promises (complete (length (requests w)) None ?w) = promises w @ [Resolved]"
    by (simp add: complete_def c6 dispose_callback_eq c7)
  have c9: "promises (complete (length (requests w)) (Some err) ?w) = promises w @ [Rejected err]"
    by (simp add: complete_def c6 dispose_callback_eq c7)
  have "issued sid PushAdd (run es ?w) = issued sid PushAdd ?w"
    by (rule pushes_run [OF valid_after_dispose [OF assms(1)] assms(3) c5])
  then have c10: "issued sid PushAdd (run es ?w) = issued sid PushAdd w"
    by (simp add: issued_dispose)
  show ?thesis
    by (intro conjI) (fact c1 c2 c3 c4 c5 c6 c7 c8 c9 c10)+
qed

text \<open>The instance of C1 at the sample session.\<close>
theorem dispose_ends_pushes_witness:
  "0 < length (sessions one_session) \<and> single_armed 0 one_session \<and>
   Call 0 Resume \<notin> set [Tick 0, Complete 1 None, UncaughtException, Call 0 Pause, Tick 0] \<and>
   promises (complete (length (requests one_session)) None (snd (dispose 0 one_session))) =
     [Resolved] \<and>
   promises (complete (length (requests one_session)) (Some (Error ''down''))
       (snd (dispose 0 one_session))) = [Rejected (Error ''down'')] \<and>
   issued 0 PushAdd (run [Tick 0, Complete 1 None, UncaughtException, Call 0 Pause, Tick 0]
       (snd (dispose 0 one_session))) =
     [\<lparr>jobName = ''svc'', groupings = [(''instance'', ''a'')]\<rparr>]"
proof -
  have h: "0 < length (sessions one_session)" "single_armed 0 one_session"
    "Call 0 Resume \<notin> set [Tick 0, Complete 1 None, UncaughtException, Call 0 Pause, Tick 0]"
    by (simp_all add: one_session_simps single_armed_one_session)
  note t = dispose_ends_pushes [OF h, of "Error ''down''"]
  have c: "promises (complete (length (requests one_session)) None (snd (dispose 0 one_session))) =
       promises one_session @ [Resolved]"
    "promises (complete (length (requests one_session)) (Some (Error ''down''))
       (snd (dispose 0 one_session))) = promises one_session @ [Rejected (Error ''down'')]"
    "issued 0 PushAdd (run [Tick 0, Complete 1 None, UncaughtException, Call 0 Pause, Tick 0]
       (snd (dispose 0 one_session))) = issued 0 PushAdd one_session"
    using t by blast+
  have i: "issued 0 PushAdd one_session = [\<lparr>jobName = ''svc'', groupings = [(''instance'', ''a'')]\<rparr>]"
    by (simp add: issued_def one_session_simps)
  show ?thesis using h c by (simp add: i one_session_simps)
qed

text \<open>
  C1 as stated fails on a session that was resumed while running: dispose clears the
  timer of the handle only, its promise resolves, and the first timer still ticks and
  pushes.
\<close>
theorem dispose_ends_pushes_counterexample:
  "promises (run [Create sample_options sample_labels, Call 0 Resume, Call 0 Dispose,
                  Complete 1 None] sample_world) = [Resolved] \<and>
   issued 0 PushAdd (run [Create sample_options sample_labels, Call 0 Resume, Call 0 Dispose,
                          Complete 1 None] sample_world) =
     [\<lparr>jobName = ''svc'', groupings = [(''instance'', ''a'')]\<rparr>] \<and>
   issued 0 PushAdd (run [Create sample_options sample_labels, Call 0 Resume, Call 0 Dispose,
                          Complete 1 None, Tick 0] sample_world) =
     [\<lparr>jobName = ''svc'', groupings = [(''instance'', ''a'')]\<rparr>,
      \<lparr>jobName = ''svc'', groupings = [(''instance'', ''a'')]\<rparr>]"
  by (simp add: eval_simps)

subsection \<open>C2\<close>

text \<open>
  C2. For a session constructed in a consistent world, the identity given to the
  constructor is the identity of the initial push and of the push of the first tick, stays
  the session's identity over every sequence of events, and is the identity of every push
  and every delete the session sends, whenever they are sent.
\<close>
theorem identity_round_trip:
  assumes "consistent w"
  shows
  "fst (new_MetricsClient u pushInt job grp w) = length (sessions w) \<and>
   params (sessions (snd (new_MetricsClient u pushInt job grp w)) ! length (sessions w)) =
     \<lparr>jobName = job, groupings = grp\<rparr> \<and>
   issued (length (sessions w)) PushAdd (snd (new_MetricsClient u pushInt job grp w)) =
     [\<lparr>jobName = job, groupings = grp\<rparr>] \<and>
   issued (length (sessions w)) PushAdd
       (tick (length (timers w)) (snd (new_MetricsClient u pushInt job grp w))) =
     [\<lparr>jobName = job, groupings = grp\<rparr>, \<lparr>jobName = job, groupings = grp\<rparr>] \<and>
   params (sessions (run es (snd (new_MetricsClient u pushInt job grp w))) ! length (sessions w)) =
     \<lparr>jobName = job, groupings = grp\<rparr> \<and>
   set (issued (length (sessions w)) PushAdd
          (run es (snd (new_MetricsClient u pushInt job grp w)))) \<subseteq>
     {\<lparr>jobName = job, groupings = grp\<rparr>} \<and>
   set (issued (length (sessions w)) Delete
          (run es (snd (new_MetricsClient u pushInt job grp w)))) \<subseteq>
     {\<lparr>jobName = job, groupings = grp\<rparr>} \<and>
   issued (length (sessions w)) PushAdd
       (pushStats (length (sessions w)) (run es (snd (new_MetricsClient u pushInt job grp w)))) =
     issued (length (sessions w)) PushAdd (run es (snd (new_MetricsClient u pushInt job grp w))) @
       [\<lparr>jobName = job, groupings = grp\<rparr>] \<and>
   issued (length (sessions w)) Delete
       (snd (dispose (length (sessions w))
          (run es (snd (new_MetricsClient u pushInt job grp w))))) =
     issued (length (sessions w)) Delete (run es (snd (new_MetricsClient u pushInt job grp w))) @
       [\<lparr>jobName = job, groupings = grp\<rparr>]"
proof -
  let ?n = "length (sessions w)"
  let ?I = "\<lparr>jobName = job, groupings = grp\<rparr>"
  let ?w = "snd (new_MetricsClient u pushInt job grp w)"
  let ?r = "run es ?w"
  have c1: "fst (new_MetricsClient u pushInt job grp w) = ?n" by (rule new_fst)
  have c2: "params (sessions ?w ! ?n) = ?I" by (simp add: new_sessions)
  have i: "issued ?n v ?w = (if v = PushAdd then [?I] else [])" for v
    using assms by (simp add: issued_new wf_fresh consistent_def)
  have c3: "issued ?n PushAdd ?w = [?I]" by (simp add: i)
  have ct: "issued ?n PushAdd (tick (length (timers w)) ?w) = [?I, ?I]"
    by (simp add: issued_tick c3 c2) (simp add: new_timers)
  have v: "?n < length (sessions ?w)" by (simp add: new_sessions)
  from session_kept [OF frames_run v, of es]
  have f: "frame (sessions ?r ! ?n) = frame (sessions ?w ! ?n)" by simp
  have c4: "params (sessions ?r ! ?n) = ?I"
    using params_frame [OF f] c2 by simp
  have s: "set (issued ?n v ?r) \<subseteq> {?I}" for v
    using issued_run [OF v, of v es] by (auto simp: c2 i split: if_splits)
  have c5: "set (issued ?n PushAdd ?r) \<subseteq> {?I}" by (rule s)
  have c6: "set (issued ?n Delete ?r) \<subseteq> {?I}" by (rule s)
  have c7: "issued ?n PushAdd (pushStats ?n ?r) = issued ?n PushAdd ?r @ [?I]"
    by (simp add: issued_pushStats c4)
  have c8: "issued ?n Delete (snd (dispose ?n ?r)) = issued ?n Delete ?r @ [?I]"
    by (simp add: issued_dispose c4)
  show ?thesis
    by (intro conjI) (fact c1 c2 c3 ct c4 c5 c6 c7 c8)+
qed

text \<open>The instance of C2 at the sample process: three pushes, then the delete.\<close>
theorem identity_round_trip_witness:
  "consistent sample_world \<and>
   issued 0 PushAdd (snd (new_MetricsClient (sample_parse ''http://gateway:9091/'') 1000
       ''svc'' [(''instance'', ''a'')] sample_world)) =
     [\<lparr>jobName = ''svc'', groupings = [(''instance'', ''a'')]\<rparr>] \<and>
   issued 0 Delete (snd (dispose 0 (run [Tick 0, Complete 0 (Some (Error ''down'')), Tick 0]
       (snd (new_MetricsClient (sample_parse ''http://gateway:9091/'') 1000
          ''svc'' [(''instance'', ''a'')] sample_world))))) =
     [\<lparr>jobName = ''svc'', groupings = [(''instance'', ''a'')]\<rparr>] \<and>
   issued 0 PushAdd (run [Tick 0, Complete 0 (Some (Error ''down'')), Tick 0]
       (snd (new_MetricsClient (sample_parse ''http://gateway:9091/'') 1000
          ''svc'' [(''instance'', ''a'')] sample_world))) =
     [\<lparr>jobName = ''svc'', groupings = [(''instance'', ''a'')]\<rparr>,
      \<lparr>jobName = ''svc'', groupings = [(''instance'', ''a'')]\<rparr>,
      \<lparr>jobName = ''svc'', groupings = [(''instance'', ''a'')]\<rparr>]"
proof -
  have h: "consistent sample_world" by (rule consistent_sample_world)
  have l: "length (sessions sample_world) = 0" by (simp add: sample_world_def boot_def)
  note t = identity_round_trip [OF h, of "sample_parse ''http://gateway:9091/''" 1000
      "''svc''" "[(''instance'', ''a'')]" "[Tick 0, Complete 0 (Some (Error ''down'')), Tick 0]"]
  have c: "issued 0 PushAdd (snd (new_MetricsClient (sample_parse ''http://gateway:9091/'') 1000
       ''svc'' [(''instance'', ''a'')] sample_world)) =
     [\<lparr>jobName = ''svc'', groupings = [(''instance'', ''a'')]\<rparr>]"
    "issued 0 Delete (snd (dispose 0 (run [Tick 0, Complete 0 (Some (Error ''down'')), Tick 0]
       (snd (new_MetricsClient (sample_parse ''http://gateway:9091/'') 1000
          ''svc'' [(''instance'', ''a'')] sample_world))))) =
     issued 0 Delete (run [Tick 0, Complete 0 (Some (Error ''down'')), Tick 0]
       (snd (new_MetricsClient (sample_parse ''http://gateway:9091/'') 1000
          ''svc'' [(''instance'', ''a'')] sample_world))) @
     [\<lparr>jobName = ''svc'', groupings = [(''instance'', ''a'')]\<rparr>]"
    using t unfolding l by blast+
  have d: "issued 0 Delete (run [Tick 0, Complete 0 (Some (Error ''down'')), Tick 0]
       (snd (new_MetricsClient (sample_parse ''http://gateway:9091/'') 1000
          ''svc'' [(''instance'', ''a'')] sample_world))) = []"
    by (simp add: eval_simps new_simps)
  have p: "issued 0 PushAdd (run [Tick 0, Complete 0 (Some (Error ''down'')), Tick 0]
       (snd (new_MetricsClient (sample_parse ''http://gateway:9091/'') 1000
          ''svc'' [(''instance'', ''a'')] sample_world))) =
     [\<lparr>jobName = ''svc'', groupings = [(''instance'', ''a'')]\<rparr>,
      \<lparr>jobName = ''svc'', groupings = [(''instance'', ''a'')]\<rparr>,
      \<lparr>jobName = ''svc'', groupings = [(''instance'', ''a'')]\<rparr>]"
    by (simp add: eval_simps new_simps)
  show ?thesis using h c d p by simp
qed

subsection \<open>C3\<close>

text \<open>
  C3. In a consistent world, when a push of a running session fails, its callback only
  appends one error record with the error and the identity to the log: sessions, timers,
  promises and handlers are unchanged, no request is sent, the session is still running
  with the timer of its handle armed, and the next tick of that timer sends another push.
\<close>
theorem push_failure_only_logged:
  assumes "consistent w"
    and "r < length (requests w)" and "\<not> r_done (requests w ! r)"
    and "r_callback (requests w ! r) = PushStatsCallback sid"
    and "interval (sessions w ! sid) = Some t"
  shows
  "complete r (Some err) w =
     w\<lparr>requests := (requests w)[r := (requests w ! r)\<lparr>r_done := True\<rparr>],
       logs := logs w @
         [\<lparr>l_logger = logger (sessions w ! sid), l_level = Err,
           l_message = ''An error occured while pushing stats to Pushgateway: '' @ message err,
           l_meta = ErrorMeta err (params (sessions w ! sid))\<rparr>]\<rparr> \<and>
   sessions (complete r (Some err) w) = sessions w \<and>
   timers (complete r (Some err) w) = timers w \<and>
   promises (complete r (Some err) w) = promises w \<and>
   hooks (complete r (Some err) w) = hooks w \<and>
   length (requests (complete r (Some err) w)) = length (requests w) \<and>
   running sid (complete r (Some err) w) \<and>
   t \<in> set (armed_timers sid (complete r (Some err) w)) \<and>
   issued sid PushAdd (tick t (complete r (Some err) w)) =
     issued sid PushAdd w @ [params (sessions w ! sid)]"
proof -
  let ?w = "complete r (Some err) w"
  have eq: "?w =
     w\<lparr>requests := (requests w)[r := (requests w ! r)\<lparr>r_done := True\<rparr>],
       logs := logs w @
         [\<lparr>l_logger = logger (sessions w ! sid), l_level = Err,
           l_message = ''An error occured while pushing stats to Pushgateway: '' @ message err,
           l_meta = ErrorMeta err (params (sessions w ! sid))\<rparr>]\<rparr>"
    using assms(2-4) by (simp add: complete_def pushStats_callback_eq)
  have "cb_this (r_callback (requests w ! r)) < length (sessions w)"
    using assms(1,2) by (simp add: consistent_def well_formed_iff)
  then have v: "sid < length (sessions w)" by (simp add: assms(4))
  note armed = running_timer [OF assms(1) v assms(5)]
  have s: "sessions ?w = sessions w" and tm: "timers ?w = timers w"
    and pr: "promises ?w = promises w" and hk: "hooks ?w = hooks w"
    and ln: "length (requests ?w) = length (requests w)"
    by (simp_all add: eq)
  have rn: "running sid ?w" using assms(5) by (simp add: running_def s)
  have ar: "t \<in> set (armed_timers sid ?w)" using armed by (simp add: armed_iff tm)
  have ps: "issued sid PushAdd (tick t ?w) = issued sid PushAdd w @ [params (sessions w ! sid)]"
    using armed by (simp add: issued_tick tm s issued_complete)
  show ?thesis
    by (intro conjI) (fact eq s tm pr hk ln rn ar ps)+
qed

text \<open>The instance of C3 at the sample session, whose first push fails.\<close>
theorem push_failure_only_logged_witness:
  "consistent one_session \<and>
   0 < length (requests one_session) \<and> \<not> r_done (requests one_session ! 0) \<and>
   r_callback (requests one_session ! 0) = PushStatsCallback 0 \<and>
   interval (sessions one_session ! 0) = Some 0 \<and>
   timers (complete 0 (Some (Error ''ECONNREFUSED'')) one_session) = timers one_session \<and>
   running 0 (complete 0 (Some (Error ''ECONNREFUSED'')) one_session) \<and>
   issued 0 PushAdd (tick 0 (complete 0 (Some (Error ''ECONNREFUSED'')) one_session)) =
     [\<lparr>jobName = ''svc'', groupings = [(''instance'', ''a'')]\<rparr>,
      \<lparr>jobName = ''svc'', groupings = [(''instance'', ''a'')]\<rparr>]"
proof -
  have h: "consistent one_session"
    "0 < length (requests one_session)" "\<not> r_done (requests one_session ! 0)"
    "r_callback (requests one_session ! 0) = PushStatsCallback 0"
    "interval (sessions one_session ! 0) = Some 0"
    by (simp_all add: one_session_simps consistent_one_session)
  have i: "issued 0 PushAdd one_session = [\<lparr>jobName = ''svc'', groupings = [(''instance'', ''a'')]\<rparr>]"
    by (simp add: issued_def one_session_simps)
  have p: "params (sessions one_session ! 0) = \<lparr>jobName = ''svc'', groupings = [(''instance'', ''a'')]\<rparr>"
    by (simp add: one_session_simps)
  note t = push_failure_only_logged [OF h, of "Error ''ECONNREFUSED''"]
  have c: "timers (complete 0 (Some (Error ''ECONNREFUSED'')) one_session) = timers one_session"
    "running 0 (complete 0 (Some (Error ''ECONNREFUSED'')) one_session)"
    "issued 0 PushAdd (tick 0 (complete 0 (Some (Error ''ECONNREFUSED'')) one_session)) =
       issued 0 PushAdd one_session @ [params (sessions one_session ! 0)]"
    using t by blast+
  show ?thesis using h c by (simp add: i p)
qed

subsection \<open>C4\<close>


subsection \<open>C5\<close>



subsection \<open>C6\<close>

text \<open>
  C6, as amended. After dispose, the session is not running and stays so, and no timer is
  armed for it, under every sequence of events that does not call resume on it. Resume is
  not guarded: called then, it makes the session running again, and the tick of the timer
  it arms sends a push.
\<close>
theorem disposed_stays_idle:
  assumes "sid < length (sessions w)" and "Call sid Resume \<notin> set es"
  shows
  "\<not> running sid (run es (snd (dispose sid w))) \<and>
   set (armed_timers sid (run es (snd (dispose sid w)))) \<subseteq>
     set (armed_timers sid (snd (dispose sid w))) \<and>
   set (armed_timers sid (snd (dispose sid w))) \<subseteq> set (armed_timers sid w) \<and>
   running sid (resume sid (run es (snd (dispose sid w)))) \<and>
   issued sid PushAdd
       (tick (length (timers (run es (snd (dispose sid w)))))
          (resume sid (run es (snd (dispose sid w))))) =
     issued sid PushAdd (run es (snd (dispose sid w))) @ [params (sessions w ! sid)]"
proof -
  let ?w = "snd (dispose sid w)"
  let ?r = "run es ?w"
  have v: "sid < length (sessions ?w)" by (rule valid_after_dispose [OF assms(1)])
  from session_kept [OF frames_run v, of es]
  have vr: "sid < length (sessions ?r)"
    and f: "frame (sessions ?r ! sid) = frame (sessions ?w ! sid)"
    by simp_all
  have "params (sessions ?w ! sid) = params (sessions w ! sid)"
    by (simp add: dispose_eq upd_nth_field)
  with params_frame [OF f] have p: "params (sessions ?r ! sid) = params (sessions w ! sid)"
    by simp
  have c4: "running sid (resume sid ?r)"
    using vr by (simp add: running_def resume_eq)
  have "params (sessions (resume sid ?r) ! sid) = params (sessions ?r ! sid)"
    by (simp add: resume_eq upd_nth_field)
  then have c5: "issued sid PushAdd (tick (length (timers ?r)) (resume sid ?r)) =
      issued sid PushAdd ?r @ [params (sessions w ! sid)]"
    by (simp add: issued_tick issued_resume p) (simp add: resume_eq)
  have "interval (sessions (run es ?w) ! sid) = None"
    by (rule idle_run [OF v assms(2) idle_after_dispose [OF assms(1)]])
  then have c1: "\<not> running sid (run es ?w)" by (simp add: running_def)
  have c2: "set (armed_timers sid (run es ?w)) \<subseteq> set (armed_timers sid ?w)"
    by (rule armed_run [OF v assms(2)])
  have c3: "set (armed_timers sid ?w) \<subseteq> set (armed_timers sid w)"
    by (auto simp: armed_dispose)
  show ?thesis by (intro conjI) (fact c1 c2 c3 c4 c5)+
qed

text \<open>The instance of C6 at the sample session.\<close>
theorem disposed_stays_idle_witness:
  "0 < length (sessions one_session) \<and>
   Call 0 Resume \<notin> set [Tick 0, Call 0 Pause, UncaughtException, Call 0 Dispose, Tick 0] \<and>
   \<not> running 0 (run [Tick 0, Call 0 Pause, UncaughtException, Call 0 Dispose, Tick 0]
       (snd (dispose 0 one_session))) \<and>
   set (armed_timers 0 (run [Tick 0, Call 0 Pause, UncaughtException, Call 0 Dispose, Tick 0]
       (snd (dispose 0 one_session)))) = {}"
proof -
  have h: "0 < length (sessions one_session)"
    "Call 0 Resume \<notin> set [Tick 0, Call 0 Pause, UncaughtException, Call 0 Dispose, Tick 0]"
    by (simp_all add: one_session_simps)
  note t = disposed_stays_idle [OF h]
  have c: "\<not> running 0 (run [Tick 0, Call 0 Pause, UncaughtException, Call 0 Dispose, Tick 0]
       (snd (dispose 0 one_session)))"
    "set (armed_timers 0 (run [Tick 0, Call 0 Pause, UncaughtException, Call 0 Dispose, Tick 0]
       (snd (dispose 0 one_session)))) \<subseteq> set (armed_timers 0 (snd (dispose 0 one_session)))"
    using t by blast+
  have "armed_timers 0 (snd (dispose 0 one_session)) = []"
    by (rule quiet_after_dispose [OF single_armed_one_session])
  with h c show ?thesis by simp
qed

text \<open>
  C6 as stated fails: resume after dispose makes the session running again, and the tick
  of the new timer pushes.
\<close>
theorem disposed_terminal_counterexample:
  "\<not> running 0 (run [Create sample_options sample_labels, Call 0 Dispose] sample_world) \<and>
   running 0 (run [Create sample_options sample_labels, Call 0 Dispose, Call 0 Resume]
                sample_world) \<and>
   issued 0 PushAdd (run [Create sample_options sample_labels, Call 0 Dispose, Call 0 Resume,
                          Tick 1] sample_world) =
     [\<lparr>jobName = ''svc'', groupings = [(''instance'', ''a'')]\<rparr>,
      \<lparr>jobName = ''svc'', groupings = [(''instance'', ''a'')]\<rparr>]"
  by (simp add: eval_simps)

subsection \<open>C7\<close>

text \<open>
  C7. In a consistent world, resume on a session that is running arms a second timer with the configured delay and leaves the first one armed: the session then
  has both, and each tick of either sends a push under the session's identity.
\<close>
theorem resume_double_arms:
  assumes "consistent w" and "sid < length (sessions w)"
    and "interval (sessions w ! sid) = Some t"
  shows
  "timers (resume sid w) = timers w @
     [\<lparr>t_this = sid, t_delay = pushInterval (sessions w ! sid), t_armed = True\<rparr>] \<and>
   timers (resume sid w) ! t = timers w ! t \<and>
   length (timers w) \<noteq> t \<and>
   set (armed_timers sid (resume sid w)) = insert (length (timers w)) (set (armed_timers sid w)) \<and>
   t \<in> set (armed_timers sid (resume sid w)) \<and>
   length (timers w) \<in> set (armed_timers sid (resume sid w)) \<and>
   issued sid PushAdd (tick t (resume sid w)) =
     issued sid PushAdd w @ [params (sessions w ! sid)] \<and>
   issued sid PushAdd (tick (length (timers w)) (resume sid w)) =
     issued sid PushAdd w @ [params (sessions w ! sid)] \<and>
   issued sid PushAdd (tick (length (timers w)) (tick t (resume sid w))) =
     issued sid PushAdd w @ [params (sessions w ! sid), params (sessions w ! sid)]"
proof -
  let ?w = "resume sid w"
  let ?n = "length (timers w)"
  from running_timer [OF assms]
  have r1: "t < length (timers w)" and r2: "t_armed (timers w ! t)"
    and r3: "t_this (timers w ! t) = sid"
    by simp_all
  have tm: "timers ?w = timers w @
      [\<lparr>t_this = sid, t_delay = pushInterval (sessions w ! sid), t_armed = True\<rparr>]"
    by (simp add: resume_eq)
  have ne: "?n \<noteq> t" using r1 by simp
  have ar: "set (armed_timers sid ?w) = insert ?n (set (armed_timers sid w))"
    by (simp add: armed_resume)
  have old: "t \<in> set (armed_timers sid w)" using r1 r2 r3 by (simp add: armed_iff)
  have told: "t < length (timers ?w) \<and> t_armed (timers ?w ! t) \<and> t_this (timers ?w ! t) = sid"
    using r1 r2 r3 by (simp add: tm nth_append)
  have tnew: "?n < length (timers ?w) \<and> t_armed (timers ?w ! ?n) \<and> t_this (timers ?w ! ?n) = sid"
    by (simp add: tm)
  have ps: "params (sessions ?w ! sid) = params (sessions w ! sid)"
    by (simp add: resume_eq upd_nth_field)
  have p1: "issued sid PushAdd (tick t ?w) = issued sid PushAdd w @ [params (sessions w ! sid)]"
    using told by (simp add: issued_tick issued_resume ps)
  have p2: "issued sid PushAdd (tick ?n ?w) = issued sid PushAdd w @ [params (sessions w ! sid)]"
    using tnew by (simp add: issued_tick issued_resume ps)
  have tt: "timers (tick t ?w) = timers ?w" "sessions (tick t ?w) = sessions ?w"
    by (simp_all add: tick_def pushStats_eq)
  have p3: "issued sid PushAdd (tick ?n (tick t ?w)) =
      issued sid PushAdd w @ [params (sessions w ! sid), params (sessions w ! sid)]"
    using tnew by (simp add: issued_tick [of sid PushAdd ?n] tt p1 ps)
  have same: "timers ?w ! t = timers w ! t" using r1 by (simp add: tm nth_append)
  have new: "?n \<in> set (armed_timers sid ?w)" by (simp add: ar)
  have old': "t \<in> set (armed_timers sid ?w)" using old by (simp add: ar)
  show ?thesis
    by (intro conjI) (fact tm same ne ar old' new p1 p2 p3)+
qed

text \<open>The instance of C7 at the sample session: two armed timers, three pushes after both
  have ticked once.\<close>
theorem resume_double_arms_witness:
  "consistent one_session \<and> 0 < length (sessions one_session) \<and>
   interval (sessions one_session ! 0) = Some 0 \<and>
   set (armed_timers 0 (resume 0 one_session)) = {0, 1} \<and>
   map t_delay (timers (resume 0 one_session)) = [1000, 1000] \<and>
   issued 0 PushAdd (tick 1 (tick 0 (resume 0 one_session))) =
     [\<lparr>jobName = ''svc'', groupings = [(''instance'', ''a'')]\<rparr>,
      \<lparr>jobName = ''svc'', groupings = [(''instance'', ''a'')]\<rparr>,
      \<lparr>jobName = ''svc'', groupings = [(''instance'', ''a'')]\<rparr>]"
proof -
  have h: "consistent one_session" "0 < length (sessions one_session)"
    "interval (sessions one_session ! 0) = Some 0"
    by (simp_all add: one_session_simps consistent_one_session)
  have i: "issued 0 PushAdd one_session = [\<lparr>jobName = ''svc'', groupings = [(''instance'', ''a'')]\<rparr>]"
    by (simp add: issued_def one_session_simps)
  have p: "params (sessions one_session ! 0) = \<lparr>jobName = ''svc'', groupings = [(''instance'', ''a'')]\<rparr>"
    by (simp add: one_session_simps)
  have a: "set (armed_timers 0 one_session) = {0}"
    by (auto simp: armed_iff one_session_simps)
  have l: "length (timers one_session) = 1" by (simp add: one_session_simps)
  note t = resume_double_arms [OF h]
  have c: "set (armed_timers 0 (resume 0 one_session)) =
       insert (length (timers one_session)) (set (armed_timers 0 one_session))"
    "timers (resume 0 one_session) = timers one_session @
       [\<lparr>t_this = 0, t_delay = pushInterval (sessions one_session ! 0), t_armed = True\<rparr>]"
    "issued 0 PushAdd (tick (length (timers one_session)) (tick 0 (resume 0 one_session))) =
       issued 0 PushAdd one_session @
         [params (sessions one_session ! 0), params (sessions one_session ! 0)]"
    using t by blast+
  show ?thesis using h c by (simp add: i p a l insert_commute one_session_simps)
qed

subsection \<open>C8\<close>

text \<open>
  C8, as amended. \<open>start\<close> takes the options only; the groupings of the session it makes
  are exactly the host name and the user name. \<open>create\<close> uses the caller's labels as they
  are and adds no default.
\<close>
theorem start_identity_is_default:
  "default_client (start options w) = Some (length (sessions w)) \<and>
   params (sessions (start options w) ! length (sessions w)) =
     \<lparr>jobName = metricsJobName options,
      groupings = [(''hostname'', os_hostname w), (''username'', os_username w)]\<rparr> \<and>
   fst (create options labels w) = length (sessions w) \<and>
   params (sessions (snd (create options labels w)) ! length (sessions w)) =
     \<lparr>jobName = metricsJobName options, groupings = labels\<rparr>"
proof -
  have "params (sessions (start options w) ! length (sessions w)) =
     \<lparr>jobName = metricsJobName options,
      groupings = [(''hostname'', os_hostname w), (''username'', os_username w)]\<rparr>"
    using sessions_start_disposed [of w]
    by (simp add: start_eq create_sessions nth_append)
  then show ?thesis
    by (simp add: start_eq create_fst create_sessions)
qed

text \<open>
  C8 as stated fails: with the caller's identity \<open>instance = a\<close>, the spec's merged
  identity has the key \<open>instance\<close>, the session that \<open>start\<close> makes has not.
\<close>
theorem start_merges_counterexample:
  "map_of (groupings (params (sessions (start sample_options sample_world) ! 0))) \<noteq>
     spec_start_groupings sample_world [(''instance'', ''a'')]"
proof
  assume "map_of (groupings (params (sessions (start sample_options sample_world) ! 0))) =
     spec_start_groupings sample_world [(''instance'', ''a'')]"
  then have "map_of (groupings (params (sessions started ! 0))) ''instance'' =
     spec_start_groupings sample_world [(''instance'', ''a'')] ''instance''"
    by (simp add: started_def)
  then show False
    by (simp add: started_simps spec_start_groupings_def)
qed

subsection \<open>C9\<close>

text \<open>
  C9. Resume, pause, push, dispose and their callbacks, a timer tick, a request completion
  and the uncaught-exception event leave every session unchanged but for its timer handle;
  over any sequence of events the sessions that existed keep their endpoint, push interval,
  gateway client, identity and logger.
\<close>
theorem frame_of_operations:
  "frames (resume sid w) = frames w \<and>
   frames (pause sid w) = frames w \<and>
   frames (pushStats sid w) = frames w \<and>
   frames (pushStats_callback sid error w) = frames w \<and>
   frames (snd (dispose sid w)) = frames w \<and>
   frames (dispose_callback sid pid error w) = frames w \<and>
   frames (tick t w) = frames w \<and>
   frames (complete r error w) = frames w \<and>
   frames (uncaughtException w) = frames w \<and>
   prefix (frames w) (frames (run es w))"
  by (simp add: frames_resume frames_pause frames_pushStats frames_pushStats_callback
      frames_dispose frames_dispose_callback frames_tick frames_complete
      frames_uncaughtException frames_run)

subsection \<open>C10\<close>

text \<open>
  C10. Dispose is not guarded against repetition: a second call sends a second delete
  request for the same identity and returns another, fresh promise, and the
  uncaught-exception event after a dispose sends one more delete for every handler the
  session has registered.
\<close>
theorem dispose_unguarded:
  "fst (dispose sid w) = length (promises w) \<and>
   fst (dispose sid (snd (dispose sid w))) = Suc (length (promises w)) \<and>
   promises (snd (dispose sid (snd (dispose sid w)))) = promises w @ [Pending, Pending] \<and>
   requests (snd (dispose sid (snd (dispose sid w)))) = requests w @
     [\<lparr>r_gateway = pushgateway (sessions w ! sid), r_verb = Delete,
       r_params = params (sessions w ! sid),
       r_callback = DisposeCallback sid (length (promises w)), r_done = False\<rparr>,
      \<lparr>r_gateway = pushgateway (sessions w ! sid), r_verb = Delete,
       r_params = params (sessions w ! sid),
       r_callback = DisposeCallback sid (Suc (length (promises w))), r_done = False\<rparr>] \<and>
   issued sid Delete (snd (dispose sid w)) = issued sid Delete w @ [params (sessions w ! sid)] \<and>
   issued sid Delete (snd (dispose sid (snd (dispose sid w)))) =
     issued sid Delete w @ [params (sessions w ! sid), params (sessions w ! sid)] \<and>
   issued sid Delete (uncaughtException (snd (dispose sid w))) =
     issued sid Delete w @
       params (sessions w ! sid) # replicate (count_list (hooks w) sid) (params (sessions w ! sid))"
proof -
  have p: "params (sessions (snd (dispose sid w)) ! sid) = params (sessions w ! sid)"
    by (simp add: dispose_eq upd_nth_field)
  have h: "hooks (snd (dispose sid w)) = hooks w" by (simp add: dispose_eq)
  show ?thesis
    by (simp add: issued_dispose deletes_uncaughtException p h)
      (simp add: dispose_eq upd_nth_field)
qed

end
